theory Spec2Isabelle
  imports Main "HOL-Library.Word" "HOL-Library.Monad_Syntax"
begin

section \<open>The document tree\<close>

text \<open>
  The program works on \<^verbatim>\<open>*html.Node\<close> values of \<^verbatim>\<open>golang.org/x/net/html\<close>: a node
  has a type, a tag atom, its data (the tag name of an element, the text of a text node),
  a namespace, an attribute slice, and pointers to its parent, its first and last child and
  its neighbours.  The children of a node are its \<^verbatim>\<open>FirstChild\<close> followed along
  \<^verbatim>\<open>NextSibling\<close>; here they are the list \<open>children\<close>, in document order.  A node
  is known by its address \<open>ptr\<close>: the caches of \<^verbatim>\<open>DeepCopySubtrees\<close> are keyed by it.
\<close>

type_synonym addr = nat

datatype NodeType =
  ErrorNode | TextNode | DocumentNode | ElementNode | CommentNode | DoctypeNode | RawNode

record Attribute =
  Namespace :: string
  Key :: string
  Val :: string

datatype Node = Node (ptr: addr) (Type: NodeType) (DataAtom: "32 word") (Data: string)
  (NodeNamespace: string) (Attr: "Attribute list") (children: "Node list")

text \<open>All nodes of a tree, the root first, and their addresses.\<close>

fun subnodes :: "Node \<Rightarrow> Node list" where
  "subnodes (Node p ty a d ns at kids) = Node p ty a d ns at kids # concat (map subnodes kids)"

definition ptrs :: "Node \<Rightarrow> addr list" where
  "ptrs n = map ptr (subnodes n)"

section \<open>Package HTMLTrees: filtered copies\<close>

text \<open>
  \<^verbatim>\<open>Copy\<close> makes a flat copy: type, atom, data and a fresh attribute slice with the same
  elements; every pointer is nil, and the \<^verbatim>\<open>Namespace\<close> field is not among the fields
  it sets, so it is the empty string.  In this tree model the copy keeps the \<open>ptr\<close> of the
  node it was made from, as the record of which source node it copies; the addresses that
  the copies themselves get are the subject of the store model further down.
\<close>

definition Copy :: "Node \<Rightarrow> Node" where
  "Copy node = Node (ptr node) (Type node) (DataAtom node) (Data node) [] (Attr node) []"

definition set_children :: "Node \<Rightarrow> Node list \<Rightarrow> Node" where
  "set_children n kids =
     Node (ptr n) (Type n) (DataAtom n) (Data n) (NodeNamespace n) (Attr n) kids"

text \<open>
  \<^verbatim>\<open>rec(root, cpy, sel)\<close> walks the children of \<open>root\<close>; a child \<open>c\<close> with
  \<^verbatim>\<open>sel(c) || c.Type == html.TextNode\<close> is copied, linked behind the previous copy under
  \<open>cpy\<close>, and filled by the recursive call.  \<open>rec_loop\<close> is the \<^verbatim>\<open>for\<close> loop.  The
  selector is a Go closure that may keep state (the cache of \<^verbatim>\<open>lookup\<close>), so it takes a
  state and returns the new one; it is called once for every child that is visited.
\<close>

fun rec :: "Node \<Rightarrow> Node \<Rightarrow> (Node \<Rightarrow> 's \<Rightarrow> bool \<times> 's) \<Rightarrow> 's \<Rightarrow> Node \<times> 's"
  and rec_loop :: "Node list \<Rightarrow> (Node \<Rightarrow> 's \<Rightarrow> bool \<times> 's) \<Rightarrow> 's \<Rightarrow> Node list \<times> 's" where
  "rec (Node p ty a d ns at kids) cpy sel s =
     (case rec_loop kids sel s of (copies, s') \<Rightarrow> (set_children cpy copies, s'))"
| "rec_loop [] sel s = ([], s)"
| "rec_loop (c # cs) sel s =
     (case sel c s of (b, s1) \<Rightarrow>
        if b \<or> Type c = TextNode then
          (case rec c (Copy c) sel s1 of (cur, s2) \<Rightarrow>
             (case rec_loop cs sel s2 of (rest, s3) \<Rightarrow> (cur # rest, s3)))
        else rec_loop cs sel s1)"

definition DeepCopy :: "Node \<Rightarrow> Node" where
  "DeepCopy root = fst (rec root (Copy root) (\<lambda>node s. (True, s)) ())"

definition DeepCopyFunc :: "Node \<Rightarrow> (Node \<Rightarrow> 's \<Rightarrow> bool \<times> 's) \<Rightarrow> 's \<Rightarrow> Node \<times> 's" where
  "DeepCopyFunc root sel s = rec root (Copy root) sel s"

text \<open>
  \<^verbatim>\<open>DeepCopySubtrees\<close> first marks every node of the given subtrees in the cache, taking
  nodes from the front of \<open>stack\<close> and appending their children, and then selects with
  \<^verbatim>\<open>lookup\<close>, which answers from the cache when it can and otherwise asks the children
  in order, stores the answer for the node and returns it.
\<close>

fun fill_cache :: "Node list \<Rightarrow> (addr \<rightharpoonup> bool) \<Rightarrow> (addr \<rightharpoonup> bool)" where
  "fill_cache [] cache = cache"
| "fill_cache (Node p ty a d ns at kids # stack) cache =
     fill_cache (stack @ kids) (cache(p \<mapsto> True))"

fun lookup :: "Node option \<Rightarrow> (addr \<rightharpoonup> bool) \<Rightarrow> bool \<times> (addr \<rightharpoonup> bool)"
  and lookup_loop :: "addr \<Rightarrow> Node list \<Rightarrow> (addr \<rightharpoonup> bool) \<Rightarrow> bool \<times> (addr \<rightharpoonup> bool)" where
  "lookup None cache = (False, cache)"
| "lookup (Some (Node p ty a d ns at kids)) cache =
     (case cache p of
        Some res \<Rightarrow> (res, cache)
      | None \<Rightarrow> lookup_loop p kids cache)"
| "lookup_loop p [] cache = (False, cache(p \<mapsto> False))"
| "lookup_loop p (c # cs) cache =
     (case lookup (Some c) cache of (b, cache') \<Rightarrow>
        if b then (True, cache'(p \<mapsto> True)) else lookup_loop p cs cache')"

definition DeepCopySubtrees :: "Node \<Rightarrow> Node list \<Rightarrow> Node" where
  "DeepCopySubtrees root subtrees =
     fst (DeepCopyFunc root (\<lambda>node. lookup (Some node)) (fill_cache subtrees Map.empty))"

section \<open>What the specification says about projections\<close>

text \<open>
  The specification describes a projection by the test that decides whether the copy of a
  node is put under the copy of its parent.  \<open>projection incl\<close> is the tree this gives for
  a test \<open>incl\<close>: below every included node, the copies of exactly the children that pass
  \<open>incl\<close>, in their order.  \<open>claimed_inclusion\<close> is the test of the specification for a
  relevance test: the node is relevant, or it is a text node, or one of its descendants is
  relevant.
\<close>

fun projection :: "(Node \<Rightarrow> bool) \<Rightarrow> Node \<Rightarrow> Node" where
  "projection incl (Node p ty a d ns at kids) =
     Node p ty a d [] at (map (projection incl) (filter incl kids))"

fun has_relevant_descendant :: "(Node \<Rightarrow> bool) \<Rightarrow> Node \<Rightarrow> bool" where
  "has_relevant_descendant relevance (Node p ty a d ns at kids) =
     list_ex (\<lambda>c. relevance c \<or> has_relevant_descendant relevance c) kids"

definition claimed_inclusion :: "(Node \<Rightarrow> bool) \<Rightarrow> Node \<Rightarrow> bool" where
  "claimed_inclusion relevance n =
     (relevance n \<or> Type n = TextNode \<or> has_relevant_descendant relevance n)"

text \<open>
  In designated-set mode a node is relevant when it lies in one of the designated subtrees:
  these are the nodes \<^verbatim>\<open>DeepCopySubtrees\<close> marks before it selects.
\<close>

definition designated :: "Node list \<Rightarrow> Node \<Rightarrow> bool" where
  "designated subtrees n = (ptr n \<in> set (concat (map ptrs subtrees)))"

text \<open>A tree with every \<^verbatim>\<open>Namespace\<close> field of a node cleared, and nothing else changed.\<close>

fun without_namespace :: "Node \<Rightarrow> Node" where
  "without_namespace (Node p ty a d ns at kids) = Node p ty a d [] at (map without_namespace kids)"

text \<open>Example documents.\<close>

definition ex_text :: Node where
  "ex_text = Node 3 TextNode 0 ''hi'' [] [] []"

definition ex_span :: Node where
  "ex_span = Node 2 ElementNode 0 ''span'' [] [] [ex_text]"

definition ex_div :: Node where
  "ex_div = Node 1 ElementNode 0 ''div'' []
     [\<lparr>Namespace = [], Key = ''class'', Val = ''x''\<rparr>] [ex_span]"

definition ex_root :: Node where
  "ex_root = Node 0 DocumentNode 0 [] [] [] [ex_div, Node 4 ElementNode 0 ''p'' [] [] []]"

section \<open>Selectors with state\<close>

text \<open>
  A selector behaves like the pure test \<open>R\<close> on the nodes of \<open>U\<close> as long as its state
  satisfies \<open>Inv\<close>, and it keeps \<open>Inv\<close>.
\<close>

definition sel_ok ::
  "Node set \<Rightarrow> ('s \<Rightarrow> bool) \<Rightarrow> (Node \<Rightarrow> bool) \<Rightarrow> (Node \<Rightarrow> 's \<Rightarrow> bool \<times> 's) \<Rightarrow> bool" where
  "sel_ok U Inv R sel =
     (\<forall>c s. c \<in> U \<longrightarrow> Inv s \<longrightarrow> fst (sel c s) = R c \<and> Inv (snd (sel c s)))"

definition cov :: "(Node \<Rightarrow> bool) \<Rightarrow> Node \<Rightarrow> bool" where
  "cov R n = (R n \<or> has_relevant_descendant R n)"

text \<open>
  The cache is sound for the nodes of \<open>U\<close>: every designated node is marked, and every
  stored answer is the right one.
\<close>

definition cache_inv :: "Node set \<Rightarrow> Node list \<Rightarrow> (addr \<rightharpoonup> bool) \<Rightarrow> bool" where
  "cache_inv U subtrees cache =
     ((\<forall>t \<in> U. designated subtrees t \<longrightarrow> cache (ptr t) = Some True) \<and>
      (\<forall>t \<in> U. \<forall>b. cache (ptr t) = Some b \<longrightarrow> b = cov (designated subtrees) t))"

section \<open>Failures\<close>

text \<open>
  The program stops the whole process with \<^verbatim>\<open>log.Fatal\<close> or with a run-time panic.
  Both are values here: a stage returns \<open>Inl\<close> of the failure and nothing after it runs.
  The constructors name the place in \<^verbatim>\<open>cmd/GoStdLib.go\<close> that stops: a parse error of
  the page, \<^verbatim>\<open>doc_src_add_prefix\<close> finding no node, a missing \<^verbatim>\<open>id\<close> attribute,
  a deck name with fewer than three parts, the two header count checks, a render error, an
  HTTP status other than 200 and 429, the failures of the Anki client, and the panics of
  the Go run time (a pattern that does not compile, a nil pointer, an index out of range).
  \<open>DanglingPointer\<close> stands for an address that names no node of the tree; a Go pointer
  cannot do that, and the constructor only makes the model total.
\<close>

datatype failure =
    ParseFailed string
  | NoNodesFound
  | NoMatchingAttribute
  | ExpectedThreeDeckParts string
  | UnexpectedAmountOfFuncHeaders nat nat
  | UnexpectedAmountOfTypeHeaders nat nat
  | RenderFailed string
  | BadStatus nat
  | DeckRequestFailed string
  | DeckCreationFailed nat
  | UploadFailed nat
  | RegexpPanic
  | NilDereference
  | IndexOutOfRange
  | DanglingPointer

text \<open>Sequencing: the second step runs only when the first did not stop the process.\<close>

definition on_success :: "failure + 'a \<Rightarrow> ('a \<Rightarrow> failure + 'b) \<Rightarrow> failure + 'b" where
  "on_success m f = (case m of Inl e \<Rightarrow> Inl e | Inr x \<Rightarrow> f x)"

lemma on_success_cong [fundef_cong]:
  "m = m' \<Longrightarrow> (\<And>x. m' = Inr x \<Longrightarrow> f x = f' x) \<Longrightarrow> on_success m f = on_success m' f'"
  by (auto simp: on_success_def split: sum.splits)

section \<open>Tasks\<close>

text \<open>
  \<^verbatim>\<open>Task\<close> is the value passed between the stages.  The field \<^verbatim>\<open>notes\<close> is called
  \<open>task_notes\<close> here, and a Go \<^verbatim>\<open>error\<close> is its message.  \<^verbatim>\<open>ImportPath\<close> splits the
  deck name at the first two \<^verbatim>\<open>::\<close>, stops the process when that gives fewer than three
  parts, and otherwise lower-cases the third part with every \<^verbatim>\<open>::\<close> replaced by a dot.
  \<open>cut\<close> splits at the first occurrence of the separator, \<open>SplitN3\<close> is
  \<^verbatim>\<open>strings.SplitN(s, sep, 3)\<close> and \<open>ReplaceAll_colons\<close> is
  \<^verbatim>\<open>strings.ReplaceAll(s, "::", ".")\<close>; lower-casing is left to the library.
\<close>

record Note =
  DeckName :: string
  ModelName :: string
  Fields :: "(string \<times> string) list"

record Task =
  url :: string
  deck :: string
  html :: string
  task_notes :: "Note list"
  err :: "string option"

fun cut :: "string \<Rightarrow> string \<Rightarrow> (string \<times> string) option" where
  "cut sep [] = (if sep = [] then Some ([], []) else None)"
| "cut sep (c # cs) =
     (if take (length sep) (c # cs) = sep then Some ([], drop (length sep) (c # cs))
      else map_option (\<lambda>(a, b). (c # a, b)) (cut sep cs))"

definition SplitN3 :: "string \<Rightarrow> string \<Rightarrow> string list" where
  "SplitN3 s sep =
     (case cut sep s of
        None \<Rightarrow> [s]
      | Some (a, r) \<Rightarrow> (case cut sep r of None \<Rightarrow> [a, r] | Some (b, r') \<Rightarrow> [a, b, r']))"

fun ReplaceAll_colons :: "string \<Rightarrow> string" where
  "ReplaceAll_colons (c # c' # cs) =
     (if c = CHR '':'' \<and> c' = CHR '':'' then CHR ''.'' # ReplaceAll_colons cs
      else c # ReplaceAll_colons (c' # cs))"
| "ReplaceAll_colons cs = cs"


definition ImportPath_of :: "(string \<Rightarrow> string) \<Rightarrow> Task \<Rightarrow> failure + string" where
  "ImportPath_of lower t =
     (let res = SplitN3 (deck t) ''::'' in
      if length res < 3 then Inl (ExpectedThreeDeckParts (deck t))
      else Inr (lower (ReplaceAll_colons (res ! 2))))"

definition AddNote :: "Task \<Rightarrow> string \<Rightarrow> string \<Rightarrow> string \<Rightarrow> Task" where
  "AddNote t front back impl =
     t\<lparr>task_notes := task_notes t @
        [\<lparr>DeckName = deck t, ModelName = ''Golang'',
          Fields = [(''Identifier'', front), (''Declaration'', back), (''Implementation'', impl)]\<rparr>]\<rparr>"

definition Task_String :: "Task \<Rightarrow> string" where
  "Task_String t =
     ''Task{ deck: '' @ deck t @ '', err: '' @ (case err t of None \<Rightarrow> ''<nil>'' | Some e \<Rightarrow> e) @ '' }''"

definition NewTask :: "string \<Rightarrow> string \<Rightarrow> Task" where
  "NewTask u d = \<lparr>url = u, deck = d, html = [], task_notes = [], err = None\<rparr>"

section \<open>The libraries\<close>

text \<open>
  What the program takes from its libraries is a parameter of the model: the HTML parser
  and renderer, URL parsing and resolution, the CSS selectors (matches are returned as the
  addresses of the matching nodes, in the order the library gives them), regular
  expressions, and \<^verbatim>\<open>strings.ToLower\<close>.  A parsed URL and a compiled pattern are
  given by strings.  \<open>url_Parse\<close> and \<open>regexp_Compile\<close> return \<open>None\<close> when the library
  reports an error; \<open>ResolveReference\<close> takes the base as an option because the program
  ignores the error of parsing the task's locator, and returns \<open>None\<close> when the call
  panics.  The nine selectors are the constant strings the program parses; parsing them
  cannot fail.  \<^verbatim>\<open>HTMLTrees.MatchingNodes\<close> is called by the program but its source is not
  part of the package source at hand, so it is a parameter as well.
\<close>

datatype selector =
    DocSrcHeader | VarSelector | VarSpanSelector | ConstSelector | ConstSpanSelector
  | FuncSelector | FuncHeaderSelector | TypeSelector | TypeHeaderSelector

record env =
  html_Parse :: "string \<Rightarrow> string + Node"
  html_Render :: "Node \<Rightarrow> string + string"
  url_Parse :: "string \<Rightarrow> string option"
  ResolveReference :: "string option \<Rightarrow> string \<Rightarrow> string option"
  url_String :: "string \<Rightarrow> string"
  css_Select :: "selector \<Rightarrow> Node \<Rightarrow> addr \<Rightarrow> addr list"
  regexp_Compile :: "string \<Rightarrow> string option"
  ReplaceAllString :: "string \<Rightarrow> string \<Rightarrow> string \<Rightarrow> string"
  MatchingNodes :: "Node \<Rightarrow> addr \<Rightarrow> string \<Rightarrow> addr list"
  ToLower :: "string \<Rightarrow> string"

definition ImportPath :: "env \<Rightarrow> Task \<Rightarrow> failure + string" where
  "ImportPath env t = ImportPath_of (ToLower env) t"

section \<open>Pointers into the tree\<close>

text \<open>
  The program holds pointers to nodes of the parsed page and follows and updates them.
  \<open>find_node\<close> dereferences an address, \<open>NextSiblings\<close> gives the nodes reached from a
  node by \<^verbatim>\<open>NextSibling\<close> (the empty list when that pointer is nil), \<open>set_Data\<close> is the
  assignment to \<^verbatim>\<open>node.Data\<close>, and \<open>subtrees_at\<close> dereferences a slice of pointers.
\<close>

fun find_node :: "Node \<Rightarrow> addr \<Rightarrow> Node option"
  and find_nodes :: "Node list \<Rightarrow> addr \<Rightarrow> Node option" where
  "find_node (Node p ty a d ns at kids) x =
     (if p = x then Some (Node p ty a d ns at kids) else find_nodes kids x)"
| "find_nodes [] x = None"
| "find_nodes (c # cs) x = (case find_node c x of Some n \<Rightarrow> Some n | None \<Rightarrow> find_nodes cs x)"

fun siblings_after :: "Node list \<Rightarrow> addr \<Rightarrow> Node list option" where
  "siblings_after [] x = None"
| "siblings_after (Node p ty a d ns at kids # cs) x =
     (if p = x then Some cs
      else (case siblings_after kids x of Some r \<Rightarrow> Some r | None \<Rightarrow> siblings_after cs x))"

definition NextSiblings :: "Node \<Rightarrow> addr \<Rightarrow> Node list option" where
  "NextSiblings root x = (if ptr root = x then Some [] else siblings_after (children root) x)"

fun update_node :: "addr \<Rightarrow> (Node \<Rightarrow> Node) \<Rightarrow> Node \<Rightarrow> Node" where
  "update_node x f (Node p ty a d ns at kids) =
     (let n = Node p ty a d ns at (map (update_node x f) kids) in if p = x then f n else n)"

definition with_Data :: "string \<Rightarrow> Node \<Rightarrow> Node" where
  "with_Data d n = Node (ptr n) (Type n) (DataAtom n) d (NodeNamespace n) (Attr n) (children n)"

definition with_Attr :: "Attribute list \<Rightarrow> Node \<Rightarrow> Node" where
  "with_Attr at n = Node (ptr n) (Type n) (DataAtom n) (Data n) (NodeNamespace n) at (children n)"

definition set_Data :: "addr \<Rightarrow> string \<Rightarrow> Node \<Rightarrow> Node" where
  "set_Data x d root = update_node x (with_Data d) root"

fun subtrees_at :: "Node \<Rightarrow> addr list \<Rightarrow> failure + Node list" where
  "subtrees_at root [] = Inr []"
| "subtrees_at root (x # xs) =
     (case find_node root x of
        None \<Rightarrow> Inl DanglingPointer
      | Some n \<Rightarrow> on_success (subtrees_at root xs) (\<lambda>ns. Inr (n # ns)))"

section \<open>Modify\<close>

text \<open>
  \<^verbatim>\<open>Modify\<close> calls \<open>f\<close> on the node and then on every node below it; the error that
  \<open>f\<close> returns is dropped.  Here \<open>f\<close> returns the node with its new fields, or the
  failure of a panic inside it; the children visited are those the node had.
\<close>

fun Modify :: "Node \<Rightarrow> (Node \<Rightarrow> failure + Node) \<Rightarrow> failure + Node"
  and Modify_loop :: "Node list \<Rightarrow> (Node \<Rightarrow> failure + Node) \<Rightarrow> failure + Node list" where
  "Modify (Node p ty a d ns at kids) f =
     on_success (f (Node p ty a d ns at kids)) (\<lambda>node.
     on_success (Modify_loop kids f) (\<lambda>kids'. Inr (set_children node kids')))"
| "Modify_loop [] f = Inr []"
| "Modify_loop (c # cs) f =
     on_success (Modify c f) (\<lambda>c'. on_success (Modify_loop cs f) (\<lambda>cs'. Inr (c' # cs')))"

section \<open>HtmlProcessor\<close>

text \<open>
  One round of the loop of \<^verbatim>\<open>HtmlProcessor\<close> is \<open>HtmlProcessor_task\<close>: parse the page,
  make the references absolute, then add the cards of the variables, the constants, the
  functions and the types, in this order.  The page is changed in place on the way, so
  every step takes the tree and returns the new one.  \<open>href_loop\<close> is the loop of the
  callback given to \<^verbatim>\<open>Modify\<close>, with its counter \<open>i\<close> increased once in the body and
  once in the loop header.  \<open>following_paragraphs\<close> is the loop that collects the
  paragraphs behind a declaration: it takes the list of nodes from \<open>c\<close> on, and
  \<^verbatim>\<open>c.NextSibling.NextSibling\<close> steps over one node, which must exist.  The blocks for
  variables and constants differ in their selectors only and are \<open>declaration_cards\<close>;
  those for functions and types are \<open>container_cards\<close>, the loop over the index \<open>i\<close>,
  behind the count checks of \<open>function_cards\<close> and \<open>type_cards\<close>.  \<open>HtmlProcessor\<close>
  is the loop over the tasks that arrive: it returns the tasks sent on and the failure
  that ended the process, if one did.  The stage never reads the field \<open>err\<close>.
\<close>

function href_loop :: "env \<Rightarrow> string option \<Rightarrow> nat \<Rightarrow> Attribute list \<Rightarrow> failure + Attribute list" where
  "href_loop env base i attr =
     (if i < length attr then
        (if Key (attr ! i) = ''href'' then
           (case url_Parse env (Val (attr ! i)) of
              Some link \<Rightarrow>
                (case ResolveReference env base link of
                   None \<Rightarrow> Inl NilDereference
                 | Some target \<Rightarrow>
                     href_loop env base (i + 1 + 1)
                       (attr[i := (attr ! i)\<lparr>Val := url_String env target\<rparr>]))
            | None \<Rightarrow> href_loop env base (i + 1 + 1) attr)
         else href_loop env base (i + 1 + 1) attr)
      else Inr attr)"
  by pat_completeness auto
termination
  by (relation "measure (\<lambda>(env, base, i, attr). length attr - i)") auto

definition absolute_hrefs :: "env \<Rightarrow> string option \<Rightarrow> Node \<Rightarrow> failure + Node" where
  "absolute_hrefs env base node =
     on_success (href_loop env base 0 (Attr node)) (\<lambda>attr. Inr (with_Attr attr node))"

definition HTMLString :: "env \<Rightarrow> Node \<Rightarrow> failure + string" where
  "HTMLString env node =
     (case html_Render env node of Inl e \<Rightarrow> Inl (RenderFailed e) | Inr s \<Rightarrow> Inr s)"

definition GetHtmlAttribute :: "Node \<Rightarrow> (Attribute \<Rightarrow> bool) \<Rightarrow> Attribute option" where
  "GetHtmlAttribute node f = find f (Attr node)"

definition GetHtmlAttributeByKey :: "Node \<Rightarrow> string \<Rightarrow> Attribute option" where
  "GetHtmlAttributeByKey node key = GetHtmlAttribute node (\<lambda>attr. Key attr = key)"

fun prefix_first_child :: "addr list \<Rightarrow> string \<Rightarrow> Node \<Rightarrow> failure + Node" where
  "prefix_first_child [] name root = Inr root"
| "prefix_first_child (node # nodes) name root =
     (case find_node root node of
        None \<Rightarrow> Inl DanglingPointer
      | Some n \<Rightarrow>
          (case children n of
             [] \<Rightarrow> Inl NilDereference
           | c # cs \<Rightarrow> prefix_first_child nodes name (set_Data (ptr c) (name @ ''.'' @ Data c) root)))"

definition doc_src_add_prefix :: "env \<Rightarrow> Node \<Rightarrow> addr \<Rightarrow> string \<Rightarrow> failure + Node" where
  "doc_src_add_prefix env root scope name =
     (let nodes = css_Select env DocSrcHeader root scope in
      if length nodes = 0 then Inl NoNodesFound else prefix_first_child nodes name root)"

fun rewrite_ids :: "env \<Rightarrow> Task \<Rightarrow> string \<Rightarrow> addr list \<Rightarrow> Node \<Rightarrow> failure + Node" where
  "rewrite_ids env task pattern [] root = Inr root"
| "rewrite_ids env task pattern (node # nodes) root =
     (case find_node root node of
        None \<Rightarrow> Inl DanglingPointer
      | Some n \<Rightarrow>
          on_success (ImportPath env task) (\<lambda>name.
            rewrite_ids env task pattern nodes
              (set_Data node (ReplaceAllString env pattern (Data n) (name @ ''.${id}'')) root)))"

fun prefix_spans :: "env \<Rightarrow> Task \<Rightarrow> addr list \<Rightarrow> Node \<Rightarrow> failure + Node" where
  "prefix_spans env task [] root = Inr root"
| "prefix_spans env task (span # spans) root =
     (case find_node root span of
        None \<Rightarrow> Inl DanglingPointer
      | Some s \<Rightarrow>
          (case GetHtmlAttributeByKey s ''id'' of
             None \<Rightarrow> Inl NoMatchingAttribute
           | Some ident \<Rightarrow>
               (case regexp_Compile env (''(?P<id>'' @ Val ident @ '')'') of
                  None \<Rightarrow> Inl RegexpPanic
                | Some pattern \<Rightarrow>
                    on_success
                      (rewrite_ids env task pattern (MatchingNodes env root span pattern) root)
                      (\<lambda>root'. prefix_spans env task spans root'))))"

fun following_paragraphs :: "Node list \<Rightarrow> failure + addr list" where
  "following_paragraphs [] = Inr []"
| "following_paragraphs [c] = (if Data c = ''p'' then Inl NilDereference else Inr [])"
| "following_paragraphs (c # s # rest) =
     (if Data c = ''p'' then on_success (following_paragraphs rest) (\<lambda>nodes. Inr (ptr c # nodes))
      else Inr [])"

definition declaration_nodes :: "Node \<Rightarrow> addr \<Rightarrow> failure + addr list" where
  "declaration_nodes root variable =
     (case NextSiblings root variable of
        None \<Rightarrow> Inl DanglingPointer
      | Some [] \<Rightarrow> Inl NilDereference
      | Some (s # rest) \<Rightarrow>
          on_success (following_paragraphs rest) (\<lambda>nodes. Inr (variable # nodes)))"

fun declaration_cards ::
  "env \<Rightarrow> selector \<Rightarrow> addr list \<Rightarrow> Node \<Rightarrow> Task \<Rightarrow> failure + Node \<times> Task" where
  "declaration_cards env span_selector [] root task = Inr (root, task)"
| "declaration_cards env span_selector (variable # variables) root task =
     on_success (prefix_spans env task (css_Select env span_selector root variable) root) (\<lambda>root'.
     on_success (declaration_nodes root' variable) (\<lambda>nodes.
     on_success (subtrees_at root' nodes) (\<lambda>subtrees.
     on_success (HTMLString env (DeepCopySubtrees root' subtrees)) (\<lambda>front.
       declaration_cards env span_selector variables root' (AddNote task front front [])))))"

definition container_card ::
  "env \<Rightarrow> addr \<Rightarrow> addr \<Rightarrow> Node \<Rightarrow> Task \<Rightarrow> failure + Node \<times> Task" where
  "container_card env function header root task =
     on_success (ImportPath env task) (\<lambda>name.
     on_success (doc_src_add_prefix env root header name) (\<lambda>root'.
     on_success (subtrees_at root' [function]) (\<lambda>fs.
     on_success (HTMLString env (DeepCopySubtrees root' fs)) (\<lambda>back.
     on_success (subtrees_at root' [header]) (\<lambda>hs.
     on_success (HTMLString env (DeepCopySubtrees root' hs)) (\<lambda>front.
       Inr (root', AddNote task front back [])))))))"

function container_cards ::
  "env \<Rightarrow> addr list \<Rightarrow> addr list \<Rightarrow> nat \<Rightarrow> Node \<Rightarrow> Task \<Rightarrow> failure + Node \<times> Task" where
  "container_cards env functions headers i root task =
     (if i < length functions then
        (if i < length headers then
           on_success (container_card env (functions ! i) (headers ! i) root task)
             (\<lambda>(root', task'). container_cards env functions headers (i + 1) root' task')
         else Inl IndexOutOfRange)
      else Inr (root, task))"
  by pat_completeness auto
termination
  by (relation "measure (\<lambda>(env, functions, headers, i, root, task). length functions - i)") auto

definition function_cards :: "env \<Rightarrow> Node \<Rightarrow> Task \<Rightarrow> failure + Node \<times> Task" where
  "function_cards env root task =
     (let functions = css_Select env FuncSelector root (ptr root);
          func_headers = css_Select env FuncHeaderSelector root (ptr root) in
      if length func_headers \<noteq> length functions
      then Inl (UnexpectedAmountOfFuncHeaders (length functions) (length func_headers))
      else container_cards env functions func_headers 0 root task)"

definition type_cards :: "env \<Rightarrow> Node \<Rightarrow> Task \<Rightarrow> failure + Node \<times> Task" where
  "type_cards env root task =
     (let types = css_Select env TypeSelector root (ptr root);
          type_headers = css_Select env TypeHeaderSelector root (ptr root) in
      if length type_headers \<noteq> length types
      then Inl (UnexpectedAmountOfTypeHeaders (length types) (length type_headers))
      else container_cards env types type_headers 0 root task)"

definition HtmlProcessor_task :: "env \<Rightarrow> Task \<Rightarrow> failure + Task" where
  "HtmlProcessor_task env task =
     (case html_Parse env (html task) of
        Inl e \<Rightarrow> Inl (ParseFailed e)
      | Inr root \<Rightarrow>
          on_success (Modify root (absolute_hrefs env (url_Parse env (url task)))) (\<lambda>root.
          on_success (declaration_cards env VarSpanSelector
                        (css_Select env VarSelector root (ptr root)) root task) (\<lambda>(root, task).
          on_success (declaration_cards env ConstSpanSelector
                        (css_Select env ConstSelector root (ptr root)) root task) (\<lambda>(root, task).
          on_success (function_cards env root task) (\<lambda>(root, task).
          on_success (type_cards env root task) (\<lambda>(root, task). Inr task))))))"

fun HtmlProcessor :: "env \<Rightarrow> Task list \<Rightarrow> Task list \<times> failure option" where
  "HtmlProcessor env [] = ([], None)"
| "HtmlProcessor env (task # rest) =
     (case HtmlProcessor_task env task of
        Inl e \<Rightarrow> ([], Some e)
      | Inr task' \<Rightarrow> (case HtmlProcessor env rest of (out, r) \<Rightarrow> (task' # out, r)))"




subsection \<open>Cards paired by position\<close>


fun header_count_failure :: "failure \<Rightarrow> bool" where
  "header_count_failure (UnexpectedAmountOfFuncHeaders n m) = True"
| "header_count_failure (UnexpectedAmountOfTypeHeaders n m) = True"
| "header_count_failure e = False"

definition count_mismatch :: "failure + 'a \<Rightarrow> bool" where
  "count_mismatch r = (case r of Inl e \<Rightarrow> header_count_failure e | Inr x \<Rightarrow> False)"

text \<open>Setting the error of the task in a result.\<close>

definition put_err :: "string option \<Rightarrow> failure + Node \<times> Task \<Rightarrow> failure + Node \<times> Task" where
  "put_err e r = map_sum id (\<lambda>(root, task). (root, task\<lparr>err := e\<rparr>)) r"

section \<open>HtmlDownloader\<close>

text \<open>
  The answers of the network are a list: a transport error of \<^verbatim>\<open>http.Get\<close>, or a
  response with its status and the result of reading its body.  \<open>download_loop\<close> is the
  loop \<^verbatim>\<open>Outer\<close> of one worker for its current task and the tasks still in the
  queue; it returns the tasks sent on and what the worker does when the answers are used
  up: it waits for a task, it is fetching one, or the process has ended.  After a transport
  error, or an error reading the body, the loop sends the task and continues with the same
  task; only after a successful read does it take the next task from the queue.
\<close>

datatype http_reply = TransportError string | Response nat "string + string"

datatype worker = Receiving | Fetching Task | Exited failure

fun download_loop :: "Task \<Rightarrow> Task list \<Rightarrow> http_reply list \<Rightarrow> Task list \<times> worker" where
  "download_loop task inq [] = ([], Fetching task)"
| "download_loop task inq (TransportError e # replies) =
     (let task' = task\<lparr>err := Some (''HtmlDownloader::failed to downlaod html for task ''
                                      @ Task_String task @ '': '' @ e)\<rparr>
      in case download_loop task' inq replies of (out, w) \<Rightarrow> (task' # out, w))"
| "download_loop task inq (Response code body # replies) =
     (if code = 200 then
        (case body of
           Inl e \<Rightarrow>
             (let task' = task\<lparr>err := Some (''HtmlDownloader::failed to read html body for ''
                                             @ Task_String task @ '': '' @ e)\<rparr>
              in case download_loop task' inq replies of (out, w) \<Rightarrow> (task' # out, w))
         | Inr bytes \<Rightarrow>
             (let task' = task\<lparr>html := bytes\<rparr>
              in case inq of
                   [] \<Rightarrow> ([task'], Receiving)
                 | next_task # inq' \<Rightarrow>
                     (case download_loop next_task inq' replies of (out, w) \<Rightarrow> (task' # out, w))))
      else if code = 429 then download_loop task inq replies
      else ([], Exited (BadStatus code)))"

definition HtmlDownloader :: "Task list \<Rightarrow> http_reply list \<Rightarrow> Task list \<times> worker" where
  "HtmlDownloader inq replies =
     (case inq of [] \<Rightarrow> ([], Receiving) | task # inq' \<Rightarrow> download_loop task inq' replies)"

section \<open>NoteUploader\<close>

text \<open>
  The answers of the Anki client are a list as well, one for each call of
  \<^verbatim>\<open>Decks.Create\<close> and \<^verbatim>\<open>Notes.Add\<close>; the result of \<^verbatim>\<open>Decks.GetAll\<close> is given
  apart, since it is called once, before the loop.  \<open>upload_notes\<close> is the inner loop
  over the notes of a task (status 500 tries the same note again), \<open>upload_tasks\<close> the
  loop over the tasks.  Both return the calls made; \<open>created\<close> picks the deck names of
  the creation calls.
\<close>

datatype client_call = GetAllDecks | CreateDeck string | AddNoteCall Note

datatype reply = Success | RestErr nat

datatype 'a progress = Finished 'a | Awaiting | Stopped failure

fun upload_notes :: "Note list \<Rightarrow> reply list \<Rightarrow> client_call list \<times> reply list progress" where
  "upload_notes [] replies = ([], Finished replies)"
| "upload_notes (note # rest) [] = ([AddNoteCall note], Awaiting)"
| "upload_notes (note # rest) (r # replies) =
     (case (case r of
              Success \<Rightarrow> upload_notes rest replies
            | RestErr code \<Rightarrow>
                if code = 200 then upload_notes rest replies
                else if code = 500 then upload_notes (note # rest) replies
                else ([], Stopped (UploadFailed code)))
      of (calls, p) \<Rightarrow> (AddNoteCall note # calls, p))"

fun upload_tasks :: "string list \<Rightarrow> Task list \<Rightarrow> reply list \<Rightarrow> client_call list \<times> unit progress" where
  "upload_tasks decks [] replies = ([], Finished ())"
| "upload_tasks decks (task # tasks) replies =
     (if deck task \<notin> set decks then
        (case replies of
           [] \<Rightarrow> ([CreateDeck (deck task)], Awaiting)
         | RestErr code # replies' \<Rightarrow> ([CreateDeck (deck task)], Stopped (DeckCreationFailed code))
         | Success # replies' \<Rightarrow>
             (case upload_notes (task_notes task) replies' of
                (calls, Finished replies'') \<Rightarrow>
                  (case upload_tasks decks tasks replies'' of
                     (calls', p) \<Rightarrow> (CreateDeck (deck task) # calls @ calls', p))
              | (calls, Awaiting) \<Rightarrow> (CreateDeck (deck task) # calls, Awaiting)
              | (calls, Stopped e) \<Rightarrow> (CreateDeck (deck task) # calls, Stopped e)))
      else
        (case upload_notes (task_notes task) replies of
           (calls, Finished replies'') \<Rightarrow>
             (case upload_tasks decks tasks replies'' of (calls', p) \<Rightarrow> (calls @ calls', p))
         | (calls, Awaiting) \<Rightarrow> (calls, Awaiting)
         | (calls, Stopped e) \<Rightarrow> (calls, Stopped e)))"

definition NoteUploader ::
  "string + string list \<Rightarrow> Task list \<Rightarrow> reply list \<Rightarrow> client_call list \<times> unit progress" where
  "NoteUploader all_decks tasks replies =
     (case all_decks of
        Inl e \<Rightarrow> ([GetAllDecks], Stopped (DeckRequestFailed e))
      | Inr decks \<Rightarrow>
          (case upload_tasks decks tasks replies of (calls, p) \<Rightarrow> (GetAllDecks # calls, p)))"

fun created :: "client_call list \<Rightarrow> string list" where
  "created [] = []"
| "created (CreateDeck d # calls) = d # created calls"
| "created (GetAllDecks # calls) = created calls"
| "created (AddNoteCall n # calls) = created calls"



section \<open>Example libraries\<close>

text \<open>
  For the examples the libraries are replaced by small functions that do on the example
  pages what the libraries do there: selectors by tag and one class or attribute, with the
  descendant combinator; a renderer for text, element and document nodes, which writes
  the value of an attribute in double quotes and escapes text and attribute values the way
  \<^verbatim>\<open>html.Render\<close> does (the example pages have no void elements, no raw text, no
  comments and no doctype); a parser that knows the example pages; URL resolution by
  concatenation.
\<close>

definition has_class :: "string \<Rightarrow> Node \<Rightarrow> bool" where
  "has_class c n = list_ex (\<lambda>a. Key a = ''class'' \<and> Val a = c) (Attr n)"

definition element :: "string \<Rightarrow> string \<Rightarrow> Node \<Rightarrow> bool" where
  "element tag c n = (Type n = ElementNode \<and> Data n = tag \<and> has_class c n)"

fun select_in :: "(Node \<Rightarrow> bool) \<Rightarrow> Node \<Rightarrow> addr list" where
  "select_in P (Node p ty a d ns at kids) =
     (if P (Node p ty a d ns at kids) then [p] else []) @ concat (map (select_in P) kids)"

fun select_under :: "(Node \<Rightarrow> bool) \<Rightarrow> (Node \<Rightarrow> bool) \<Rightarrow> bool \<Rightarrow> Node \<Rightarrow> addr list" where
  "select_under P Q inside (Node p ty a d ns at kids) =
     (if inside \<and> Q (Node p ty a d ns at kids) then [p] else [])
     @ concat (map (select_under P Q (inside \<or> P (Node p ty a d ns at kids))) kids)"

fun ex_matches :: "selector \<Rightarrow> Node \<Rightarrow> addr list" where
  "ex_matches DocSrcHeader n = select_in (element ''a'' ''Documentation-source'') n"
| "ex_matches VarSelector n =
     select_under (element ''section'' ''Documentation-variables'')
       (element ''div'' ''Documentation-declaration'') False n"
| "ex_matches ConstSelector n =
     select_under (element ''section'' ''Documentation-constants'')
       (element ''div'' ''Documentation-declaration'') False n"
| "ex_matches VarSpanSelector n =
     select_in (\<lambda>n. Type n = ElementNode \<and> Data n = ''span''
        \<and> list_ex (\<lambda>a. Key a = ''data-kind'' \<and> Val a = ''variable'') (Attr n)) n"
| "ex_matches ConstSpanSelector n =
     select_in (\<lambda>n. Type n = ElementNode \<and> Data n = ''span''
        \<and> list_ex (\<lambda>a. Key a = ''data-kind'' \<and> Val a = ''constant'') (Attr n)) n"
| "ex_matches FuncSelector n = select_in (element ''div'' ''Documentation-function'') n"
| "ex_matches FuncHeaderSelector n =
     select_under (element ''div'' ''Documentation-function'')
       (element ''h4'' ''Documentation-functionHeader'') False n"
| "ex_matches TypeSelector n = select_in (element ''div'' ''Documentation-type'') n"
| "ex_matches TypeHeaderSelector n =
     select_under (element ''div'' ''Documentation-type'')
       (element ''h4'' ''Documentation-typeHeader'') False n"

definition ex_Select :: "selector \<Rightarrow> Node \<Rightarrow> addr \<Rightarrow> addr list" where
  "ex_Select sel root scope =
     (case find_node root scope of None \<Rightarrow> [] | Some n \<Rightarrow> ex_matches sel n)"

definition escape_char :: "char \<Rightarrow> string" where
  "escape_char c =
     (if c = CHR ''&'' then ''&amp;''
      else if c = CHR 0x27 then ''&#39;''
      else if c = CHR ''<'' then ''&lt;''
      else if c = CHR ''>'' then ''&gt;''
      else if c = CHR 0x22 then ''&#34;''
      else if c = CHR 0x0D then ''&#13;''
      else [c])"

definition ex_escape :: "string \<Rightarrow> string" where
  "ex_escape s = concat (map escape_char s)"

definition ex_attribute :: "Attribute \<Rightarrow> string" where
  "ex_attribute x =
     '' '' @ (if Namespace x = [] then [] else Namespace x @ '':'') @ Key x
     @ ''=\"'' @ ex_escape (Val x) @ ''\"''"

fun ex_Render :: "Node \<Rightarrow> string" where
  "ex_Render (Node p ty a d ns at kids) =
     (if ty = TextNode then ex_escape d
      else if ty = ElementNode then
        ''<'' @ d @ concat (map ex_attribute at) @ ''>''
        @ concat (map ex_Render kids) @ ''</'' @ d @ ''>''
      else concat (map ex_Render kids))"

definition ex_section :: "string \<Rightarrow> Node list \<Rightarrow> Node" where
  "ex_section c kids =
     Node 0 DocumentNode 0 [] [] []
       [Node 1 ElementNode 0 ''html'' [] []
          [Node 2 ElementNode 0 ''head'' [] [] [],
           Node 3 ElementNode 0 ''body'' [] []
             [Node 4 ElementNode 0 ''section'' [] [\<lparr>Namespace = [], Key = ''class'', Val = c\<rparr>]
                kids]]]"

definition ex_declaration :: Node where
  "ex_declaration =
     Node 5 ElementNode 0 ''div'' []
       [\<lparr>Namespace = [], Key = ''class'', Val = ''Documentation-declaration''\<rparr>] []"

definition ex_function_page :: "Node list \<Rightarrow> Node" where
  "ex_function_page headers =
     Node 0 DocumentNode 0 [] [] []
       [Node 1 ElementNode 0 ''html'' [] []
          [Node 2 ElementNode 0 ''head'' [] [] [],
           Node 3 ElementNode 0 ''body'' [] []
             [Node 4 ElementNode 0 ''div'' []
                [\<lparr>Namespace = [], Key = ''class'', Val = ''Documentation-function''\<rparr>] headers]]]"

definition ex_header :: Node where
  "ex_header =
     Node 5 ElementNode 0 ''h4'' []
       [\<lparr>Namespace = [], Key = ''class'', Val = ''Documentation-functionHeader''\<rparr>]
       [Node 6 ElementNode 0 ''a'' []
          [\<lparr>Namespace = [], Key = ''class'', Val = ''Documentation-source''\<rparr>]
          [Node 7 TextNode 0 ''Println'' [] [] []]]"

definition ex_last_and_headerless :: Node where
  "ex_last_and_headerless =
     Node 0 DocumentNode 0 [] [] []
       [Node 1 ElementNode 0 ''html'' [] []
          [Node 2 ElementNode 0 ''head'' [] [] [],
           Node 3 ElementNode 0 ''body'' [] []
             [Node 4 ElementNode 0 ''section'' []
                [\<lparr>Namespace = [], Key = ''class'', Val = ''Documentation-variables''\<rparr>]
                [ex_declaration],
              Node 6 ElementNode 0 ''div'' []
                [\<lparr>Namespace = [], Key = ''class'', Val = ''Documentation-function''\<rparr>] []]]]"

definition ex_page_last :: string where
  "ex_page_last =
     ''<section class=\"Documentation-variables\"><div class=\"Documentation-declaration\"></div></section>''"

definition ex_page_spaced :: string where
  "ex_page_spaced =
     ''<section class=\"Documentation-variables\"><div class=\"Documentation-declaration\"></div> </section>''"

definition ex_page_function :: string where
  "ex_page_function =
     ''<div class=\"Documentation-function\"><h4 class=\"Documentation-functionHeader\"><a class=\"Documentation-source\">Println</a></h4></div>''"

definition ex_page_headerless :: string where
  "ex_page_headerless = ''<div class=\"Documentation-function\"></div>''"

definition ex_page_last_and_headerless :: string where
  "ex_page_last_and_headerless =
     ''<section class=\"Documentation-variables\"><div class=\"Documentation-declaration\"></div></section><div class=\"Documentation-function\"></div>''"

definition ex_Parse :: "string \<Rightarrow> string + Node" where
  "ex_Parse bytes =
     (if bytes = ex_page_last then Inr (ex_section ''Documentation-variables'' [ex_declaration])
      else if bytes = ex_page_spaced then
        Inr (ex_section ''Documentation-variables''
               [ex_declaration, Node 6 TextNode 0 '' '' [] [] []])
      else if bytes = ex_page_function then Inr (ex_function_page [ex_header])
      else if bytes = ex_page_headerless then Inr (ex_function_page [])
      else if bytes = ex_page_last_and_headerless then Inr ex_last_and_headerless
      else Inr (ex_section [] []))"

definition ex_env :: env where
  "ex_env = \<lparr>
     html_Parse = ex_Parse,
     html_Render = (\<lambda>n. Inr (ex_Render n)),
     url_Parse = Some,
     ResolveReference = (\<lambda>base link. map_option (\<lambda>b. b @ link) base),
     url_String = (\<lambda>u. u),
     css_Select = ex_Select,
     regexp_Compile = Some,
     ReplaceAllString = (\<lambda>pattern src repl. src),
     MatchingNodes = (\<lambda>root span pattern. []),
     ToLower = (\<lambda>s. s)\<rparr>"

definition ex_failed_task :: "string \<Rightarrow> Task" where
  "ex_failed_task bytes =
     \<lparr>url = ''https://pkg.go.dev/fmt'', deck = ''Go::Std::fmt'', html = bytes, task_notes = [],
      err = Some ''HtmlDownloader::failed to downlaod html''\<rparr>"

definition ex_card :: Note where
  "ex_card =
     \<lparr>DeckName = ''Go::Std::fmt'', ModelName = ''Golang'',
      Fields =
        [(''Identifier'',
          ''<html><body><section class=\"Documentation-variables\"><div class=\"Documentation-declaration\"></div> </section></body></html>''),
         (''Declaration'',
          ''<html><body><section class=\"Documentation-variables\"><div class=\"Documentation-declaration\"></div> </section></body></html>''),
         (''Implementation'', [])]\<rparr>"



section \<open>The store\<close>

text \<open>
  For what copies share with their source the nodes are cells of a store, as they are in
  Go: a cell has the five pointers and the fields of \<^verbatim>\<open>html.Node\<close>, and its attribute
  slice is the address of its backing array (nil is \<open>None\<close>; a slice covers its array).
  New cells and arrays are taken at the allocation marks \<open>next_cell\<close> and \<open>next_array\<close>.
  \<open>store_Copy\<close>, \<open>store_rec\<close> and \<open>store_DeepCopyFunc\<close> are \<^verbatim>\<open>Copy\<close>, \<^verbatim>\<open>rec\<close> and
  \<^verbatim>\<open>DeepCopyFunc\<close> statement by statement.  A store may hold a cycle, on which the loop
  of \<^verbatim>\<open>rec\<close> does not end, so \<open>store_rec\<close> counts its steps down from \<open>n\<close>; \<open>None\<close>
  means the steps ran out, or an address without a cell was followed, which a Go pointer
  cannot be.  The selector may read the store and keep a state.  \<open>tree_of\<close> reads the tree
  below an address, \<open>set_cData\<close> and \<open>set_attr_Val\<close> are the assignments to
  \<^verbatim>\<open>node.Data\<close> and to \<^verbatim>\<open>node.Attr[i].Val\<close>.
\<close>

record Cell =
  Parent :: "addr option"
  FirstChild :: "addr option"
  LastChild :: "addr option"
  PrevSibling :: "addr option"
  NextSibling :: "addr option"
  cType :: NodeType
  cDataAtom :: "32 word"
  cData :: string
  cNamespace :: string
  cAttr :: "addr option"

record Store =
  cells :: "addr \<rightharpoonup> Cell"
  arrays :: "addr \<rightharpoonup> Attribute list"
  next_cell :: addr
  next_array :: addr

definition write_cell :: "addr \<Rightarrow> (Cell \<Rightarrow> Cell) \<Rightarrow> Store \<Rightarrow> Store option" where
  "write_cell a f st = do { c \<leftarrow> cells st a; Some (st\<lparr>cells := (cells st)(a \<mapsto> f c)\<rparr>) }"

definition copy_slice :: "addr option \<Rightarrow> Store \<Rightarrow> (addr option \<times> Store) option" where
  "copy_slice attr st =
     (case attr of
        None \<Rightarrow> Some (None, st)
      | Some b \<Rightarrow> do {
          xs \<leftarrow> arrays st b;
          if length xs > 0
          then Some (Some (next_array st),
                     st\<lparr>arrays := (arrays st)(next_array st \<mapsto> xs), next_array := next_array st + 1\<rparr>)
          else Some (None, st) })"

definition store_Copy :: "addr \<Rightarrow> Store \<Rightarrow> (addr \<times> Store) option" where
  "store_Copy node st = do {
     c \<leftarrow> cells st node;
     (attr, st1) \<leftarrow> copy_slice (cAttr c) st;
     Some (next_cell st1,
           st1\<lparr>cells := (cells st1)(next_cell st1 \<mapsto>
                  \<lparr>Parent = None, FirstChild = None, LastChild = None, PrevSibling = None,
                   NextSibling = None, cType = cType c, cDataAtom = cDataAtom c,
                   cData = cData c, cNamespace = [], cAttr = attr\<rparr>),
               next_cell := next_cell st1 + 1\<rparr>) }"

definition link_first :: "addr \<Rightarrow> addr \<Rightarrow> Store \<Rightarrow> Store option" where
  "link_first cpy cur st = do {
     k \<leftarrow> cells st cpy;
     if FirstChild k = None then write_cell cpy (\<lambda>k. k\<lparr>FirstChild := Some cur\<rparr>) st else Some st }"

definition link_prev :: "addr option \<Rightarrow> addr \<Rightarrow> Store \<Rightarrow> Store option" where
  "link_prev prev cur st =
     (case prev of
        None \<Rightarrow> Some st
      | Some p \<Rightarrow> do {
          st1 \<leftarrow> write_cell cur (\<lambda>k. k\<lparr>PrevSibling := Some p\<rparr>) st;
          write_cell p (\<lambda>k. k\<lparr>NextSibling := Some cur\<rparr>) st1 })"

fun store_rec ::
    "nat \<Rightarrow> addr \<Rightarrow> addr \<Rightarrow> (Store \<Rightarrow> addr \<Rightarrow> 's \<Rightarrow> bool \<times> 's) \<Rightarrow> 's \<Rightarrow> Store \<Rightarrow> (Store \<times> 's) option"
  and store_rec_loop ::
    "nat \<Rightarrow> addr option \<Rightarrow> addr option \<Rightarrow> addr \<Rightarrow> (Store \<Rightarrow> addr \<Rightarrow> 's \<Rightarrow> bool \<times> 's) \<Rightarrow> 's \<Rightarrow> Store
       \<Rightarrow> (addr option \<times> Store \<times> 's) option" where
  "store_rec 0 root cpy sel s st = None"
| "store_rec (Suc n) root cpy sel s st = do {
     r \<leftarrow> cells st root;
     (prev, st1, s1) \<leftarrow> store_rec_loop n (FirstChild r) None cpy sel s st;
     st2 \<leftarrow> write_cell cpy (\<lambda>k. k\<lparr>LastChild := prev\<rparr>) st1;
     Some (st2, s1) }"
| "store_rec_loop 0 c prev cpy sel s st = None"
| "store_rec_loop (Suc n) None prev cpy sel s st = Some (prev, st, s)"
| "store_rec_loop (Suc n) (Some c) prev cpy sel s st = do {
     cc \<leftarrow> cells st c;
     (case sel st c s of (b, s1) \<Rightarrow>
        if b \<or> cType cc = TextNode then do {
          (cur, st1) \<leftarrow> store_Copy c st;
          st2 \<leftarrow> write_cell cur (\<lambda>k. k\<lparr>Parent := Some cpy\<rparr>) st1;
          st3 \<leftarrow> link_first cpy cur st2;
          st4 \<leftarrow> link_prev prev cur st3;
          (st5, s2) \<leftarrow> store_rec n c cur sel s1 st4;
          cc' \<leftarrow> cells st5 c;
          store_rec_loop n (NextSibling cc') (Some cur) cpy sel s2 st5 }
        else store_rec_loop n (NextSibling cc) prev cpy sel s1 st) }"

definition store_DeepCopyFunc ::
  "nat \<Rightarrow> addr \<Rightarrow> (Store \<Rightarrow> addr \<Rightarrow> 's \<Rightarrow> bool \<times> 's) \<Rightarrow> 's \<Rightarrow> Store \<Rightarrow> (addr \<times> Store \<times> 's) option" where
  "store_DeepCopyFunc n root sel s st = do {
     (newRoot, st1) \<leftarrow> store_Copy root st;
     (st2, s') \<leftarrow> store_rec n root newRoot sel s st1;
     Some (newRoot, st2, s') }"

fun tree_of :: "nat \<Rightarrow> Store \<Rightarrow> addr \<Rightarrow> Node option"
  and forest_of :: "nat \<Rightarrow> Store \<Rightarrow> addr option \<Rightarrow> Node list option" where
  "tree_of 0 st a = None"
| "tree_of (Suc n) st a = do {
     c \<leftarrow> cells st a;
     attr \<leftarrow> (case cAttr c of None \<Rightarrow> Some [] | Some b \<Rightarrow> arrays st b);
     kids \<leftarrow> forest_of n st (FirstChild c);
     Some (Node a (cType c) (cDataAtom c) (cData c) (cNamespace c) attr kids) }"
| "forest_of 0 st x = None"
| "forest_of (Suc n) st None = Some []"
| "forest_of (Suc n) st (Some a) = do {
     t \<leftarrow> tree_of n st a;
     c \<leftarrow> cells st a;
     rest \<leftarrow> forest_of n st (NextSibling c);
     Some (t # rest) }"

definition set_cData :: "addr \<Rightarrow> string \<Rightarrow> Store \<Rightarrow> Store option" where
  "set_cData x d st = write_cell x (\<lambda>k. k\<lparr>cData := d\<rparr>) st"

definition set_attr_Val :: "addr \<Rightarrow> nat \<Rightarrow> string \<Rightarrow> Store \<Rightarrow> Store option" where
  "set_attr_Val x i v st = do {
     c \<leftarrow> cells st x;
     b \<leftarrow> cAttr c;
     xs \<leftarrow> arrays st b;
     if i < length xs
     then Some (st\<lparr>arrays := (arrays st)(b \<mapsto> xs[i := (xs ! i)\<lparr>Val := v\<rparr>])\<rparr>)
     else None }"

text \<open>An example store: a document with an element that has a text child and an element child.\<close>

definition empty_cell :: Cell where
  "empty_cell = \<lparr>Parent = None, FirstChild = None, LastChild = None, PrevSibling = None,
     NextSibling = None, cType = ElementNode, cDataAtom = 0, cData = [], cNamespace = [], cAttr = None\<rparr>"

definition ex_store :: Store where
  "ex_store = \<lparr>
     cells = [0 \<mapsto> empty_cell\<lparr>cType := DocumentNode, FirstChild := Some 1, LastChild := Some 1\<rparr>,
              1 \<mapsto> empty_cell\<lparr>cData := ''a'', Parent := Some 0, FirstChild := Some 2, LastChild := Some 3,
                                cAttr := Some 0\<rparr>,
              2 \<mapsto> empty_cell\<lparr>cType := TextNode, cData := ''fmt'', Parent := Some 1, NextSibling := Some 3\<rparr>,
              3 \<mapsto> empty_cell\<lparr>cData := ''b'', Parent := Some 1, PrevSibling := Some 2\<rparr>],
     arrays = [0 \<mapsto> [\<lparr>Namespace = [], Key = ''href'', Val = ''/fmt''\<rparr>]],
     next_cell = 4, next_array = 1\<rparr>"



text \<open>
  A store is well allocated when every cell and array lies below the allocation marks and
  cells point below them.  \<open>sound m ma st0 st\<close> relates a store to an earlier one \<open>st0\<close>
  and marks \<open>m\<close>, \<open>ma\<close>: below the marks nothing has changed, and the cells from \<open>m\<close>
  on point only to cells from \<open>m\<close> on and to arrays from \<open>ma\<close> on.
\<close>

definition cell_refs :: "Cell \<Rightarrow> addr set" where
  "cell_refs c = set_option (Parent c) \<union> set_option (FirstChild c) \<union> set_option (LastChild c)
     \<union> set_option (PrevSibling c) \<union> set_option (NextSibling c)"

definition well_allocated :: "Store \<Rightarrow> bool" where
  "well_allocated st =
     ((\<forall>a c. cells st a = Some c \<longrightarrow>
         a < next_cell st \<and> (\<forall>p \<in> cell_refs c. p < next_cell st)
         \<and> (\<forall>b \<in> set_option (cAttr c). b < next_array st))
      \<and> (\<forall>b xs. arrays st b = Some xs \<longrightarrow> b < next_array st))"

definition fresh_closed :: "addr \<Rightarrow> addr \<Rightarrow> Store \<Rightarrow> bool" where
  "fresh_closed m ma st =
     (\<forall>a c. m \<le> a \<longrightarrow> cells st a = Some c \<longrightarrow>
        (\<forall>p \<in> cell_refs c. m \<le> p) \<and> (\<forall>b \<in> set_option (cAttr c). ma \<le> b))"

definition same_below :: "addr \<Rightarrow> addr \<Rightarrow> Store \<Rightarrow> Store \<Rightarrow> bool" where
  "same_below m ma st0 st =
     ((\<forall>a < m. cells st a = cells st0 a) \<and> (\<forall>b < ma. arrays st b = arrays st0 b))"

definition sound :: "addr \<Rightarrow> addr \<Rightarrow> Store \<Rightarrow> Store \<Rightarrow> bool" where
  "sound m ma st0 st =
     (well_allocated st \<and> m \<le> next_cell st \<and> ma \<le> next_array st
      \<and> same_below m ma st0 st \<and> fresh_closed m ma st)"

definition fresh :: "addr \<Rightarrow> Store \<Rightarrow> addr \<Rightarrow> bool" where
  "fresh m st a = (m \<le> a \<and> a < next_cell st)"

text \<open>
  Regions of a store: \<open>closed_region st A B\<close> says that from the cells in \<open>A\<close> the child
  and sibling pointers lead into \<open>A\<close> and the attribute slices into \<open>B\<close>;
  \<open>agree A B st st'\<close> says that two stores hold the same cells in \<open>A\<close> and the same
  arrays in \<open>B\<close>.
\<close>

definition closed_region :: "Store \<Rightarrow> addr set \<Rightarrow> addr set \<Rightarrow> bool" where
  "closed_region st A B =
     (\<forall>a \<in> A. \<forall>c. cells st a = Some c \<longrightarrow>
        set_option (FirstChild c) \<subseteq> A \<and> set_option (NextSibling c) \<subseteq> A
        \<and> set_option (cAttr c) \<subseteq> B)"

definition agree :: "addr set \<Rightarrow> addr set \<Rightarrow> Store \<Rightarrow> Store \<Rightarrow> bool" where
  "agree A B st st' = ((\<forall>a \<in> A. cells st' a = cells st a) \<and> (\<forall>b \<in> B. arrays st' b = arrays st b))"

text \<open>An example: the store after two copies of its tree and a change to the second.\<close>

definition accept_all :: "Store \<Rightarrow> addr \<Rightarrow> unit \<Rightarrow> bool \<times> unit" where
  "accept_all st a s = (True, s)"

definition ex_store1 :: Store where
  "ex_store1 = fst (snd (the (store_DeepCopyFunc 10 0 accept_all () ex_store)))"

definition ex_store2 :: Store where
  "ex_store2 = fst (snd (the (store_DeepCopyFunc 10 0 accept_all () ex_store1)))"

definition ex_store3 :: Store where
  "ex_store3 = the (set_attr_Val 9 0 ''https://pkg.go.dev/fmt'' ex_store2)"

section \<open>Properties of the filtered copies\<close>

lemma subnodes_self: "n \<in> set (subnodes n)"
  by (cases n) simp

lemma subnodes_closed:
  "\<forall>t \<in> set (subnodes root). set (children t) \<subseteq> set (subnodes root)"
proof (induction root rule: subnodes.induct)
  case (1 p ty a d ns at kids)
  show ?case
  proof
    fix t assume "t \<in> set (subnodes (Node p ty a d ns at kids))"
    then consider "t = Node p ty a d ns at kids"
      | k where "k \<in> set kids" "t \<in> set (subnodes k)"
      by auto
    then show "set (children t) \<subseteq> set (subnodes (Node p ty a d ns at kids))"
    proof cases
      case 1
      then show ?thesis using subnodes_self by auto
    next
      case 2
      then have "set (children t) \<subseteq> set (subnodes k)" using "1.IH" by blast
      then show ?thesis using 2(1) by auto
    qed
  qed
qed

lemma projection_root:
  "set_children (Copy root) (map (projection incl) (filter incl (children root))) =
     projection incl root"
  by (cases root) (simp add: set_children_def Copy_def)

lemma rec_invariant:
  fixes sel :: "Node \<Rightarrow> 's \<Rightarrow> bool \<times> 's"
  shows "sel_ok U Inv R sel \<Longrightarrow> Inv s \<Longrightarrow> set (subnodes root) \<subseteq> U \<Longrightarrow>
           fst (rec root cpy sel s) =
             set_children cpy (map (projection (\<lambda>c. R c \<or> Type c = TextNode))
                (filter (\<lambda>c. R c \<or> Type c = TextNode) (children root)))
           \<and> Inv (snd (rec root cpy sel s))"
    and "sel_ok U Inv R sel \<Longrightarrow> Inv s \<Longrightarrow> (\<forall>c \<in> set cs. set (subnodes c) \<subseteq> U) \<Longrightarrow>
           fst (rec_loop cs sel s) =
             map (projection (\<lambda>c. R c \<or> Type c = TextNode))
                (filter (\<lambda>c. R c \<or> Type c = TextNode) cs)
           \<and> Inv (snd (rec_loop cs sel s))"
proof (induction root cpy sel s and cs sel s rule: rec_rec_loop.induct)
  case (1 p ty a d ns at kids cpy sel s)
  have "\<forall>c \<in> set kids. set (subnodes c) \<subseteq> U"
    using "1.prems"(3) by auto
  with "1.IH" "1.prems"(1,2) show ?case
    by (auto split: prod.splits)
next
  case (2 sel s)
  then show ?case by simp
next
  case (3 c cs sel s)
  note ok = "3.prems"(1)
  obtain b s1 where sel: "sel c s = (b, s1)" by (cases "sel c s")
  have cU: "c \<in> U" using "3.prems"(3) subnodes_self by auto
  have b: "b = R c" and inv1: "Inv s1"
    using ok cU "3.prems"(2) sel unfolding sel_ok_def by fastforce+
  have rest: "\<forall>c \<in> set cs. set (subnodes c) \<subseteq> U" using "3.prems"(3) by simp
  show ?case
  proof (cases "b \<or> Type c = TextNode")
    case True
    obtain cur s2 where r: "rec c (Copy c) sel s1 = (cur, s2)"
      by (cases "rec c (Copy c) sel s1")
    have sub: "set (subnodes c) \<subseteq> U" using "3.prems"(3) by simp
    from "3.IH"(1) [OF sel [symmetric] True ok inv1 sub] r
    have cur: "cur = set_children (Copy c) (map (projection (\<lambda>c. R c \<or> Type c = TextNode))
                (filter (\<lambda>c. R c \<or> Type c = TextNode) (children c)))" and inv2: "Inv s2"
      by auto
    from "3.IH"(2) [OF sel [symmetric] True r [symmetric] ok inv2 rest]
    have "fst (rec_loop cs sel s2) = map (projection (\<lambda>c. R c \<or> Type c = TextNode))
                (filter (\<lambda>c. R c \<or> Type c = TextNode) cs)" and "Inv (snd (rec_loop cs sel s2))"
      by auto
    moreover have "cur = projection (\<lambda>c. R c \<or> Type c = TextNode) c"
      unfolding cur by (rule projection_root)
    ultimately show ?thesis using sel True r b
      by (auto split: prod.splits)
  next
    case False
    from "3.IH"(3) [OF sel [symmetric] False ok inv1 rest] sel False b
    show ?thesis by simp
  qed
qed

lemma DeepCopyFunc_projection:
  "fst (DeepCopyFunc root (\<lambda>node s. (R node, s)) s) =
     projection (\<lambda>c. R c \<or> Type c = TextNode) root"
proof -
  have ok: "sel_ok UNIV (\<lambda>s. True) R (\<lambda>node s. (R node, s))"
    by (simp add: sel_ok_def)
  from rec_invariant(1) [OF ok, where s = s and root = root and cpy = "Copy root"]
  show ?thesis unfolding DeepCopyFunc_def projection_root by simp
qed

lemma cov_unfold: "cov R n = (R n \<or> list_ex (cov R) (children n))"
  by (cases n) (simp add: cov_def [abs_def])

lemma cache_inv_update:
  assumes inv: "cache_inv U S cache" and inj: "inj_on ptr U" and t: "t \<in> U"
  shows "cache_inv U S (cache(ptr t \<mapsto> cov (designated S) t))"
  unfolding cache_inv_def
proof (intro conjI ballI allI impI)
  fix t' assume t': "t' \<in> U" and d: "designated S t'"
  show "(cache(ptr t \<mapsto> cov (designated S) t)) (ptr t') = Some True"
  proof (cases "ptr t' = ptr t")
    case True
    then have "t' = t" using inj t t' by (auto dest: inj_onD)
    then show ?thesis using d by (simp add: cov_def)
  next
    case False
    then show ?thesis using inv t' d by (simp add: cache_inv_def)
  qed
next
  fix t' b
  assume t': "t' \<in> U" and c: "(cache(ptr t \<mapsto> cov (designated S) t)) (ptr t') = Some b"
  show "b = cov (designated S) t'"
  proof (cases "ptr t' = ptr t")
    case True
    then have "t' = t" using inj t t' by (auto dest: inj_onD)
    then show ?thesis using c by simp
  next
    case False
    then show ?thesis using inv t' c by (simp add: cache_inv_def)
  qed
qed

lemma lookup_correct:
  shows "inj_on ptr U \<Longrightarrow> (\<forall>t \<in> U. set (children t) \<subseteq> U) \<Longrightarrow> cache_inv U S cache \<Longrightarrow>
          (\<forall>t. n = Some t \<longrightarrow> t \<in> U) \<Longrightarrow>
          (\<forall>t. n = Some t \<longrightarrow> fst (lookup n cache) = cov (designated S) t)
          \<and> cache_inv U S (snd (lookup n cache))"
    and "inj_on ptr U \<Longrightarrow> (\<forall>t \<in> U. set (children t) \<subseteq> U) \<Longrightarrow> cache_inv U S cache \<Longrightarrow>
          set cs \<subseteq> U \<Longrightarrow> t0 \<in> U \<Longrightarrow> ptr t0 = p \<Longrightarrow>
          cov (designated S) t0 = list_ex (cov (designated S)) cs \<Longrightarrow>
          fst (lookup_loop p cs cache) = cov (designated S) t0
          \<and> cache_inv U S (snd (lookup_loop p cs cache))"
proof (induction n cache and p cs cache arbitrary: and t0 rule: lookup_lookup_loop.induct)
  case (1 cache)
  then show ?case by simp
next
  case (2 p ty a d ns at kids cache)
  let ?t = "Node p ty a d ns at kids"
  have tU: "?t \<in> U" using "2.prems"(4) by simp
  show ?case
  proof (cases "cache p")
    case (Some res)
    then have "res = cov (designated S) ?t"
      using "2.prems"(3) tU unfolding cache_inv_def by (metis Node.sel(1))
    then show ?thesis using Some "2.prems"(3) by simp
  next
    case None
    have nd: "\<not> designated S ?t"
      using "2.prems"(3) tU None unfolding cache_inv_def by fastforce
    have kids: "set kids \<subseteq> U" using "2.prems"(2) tU by fastforce
    have c: "cov (designated S) ?t = list_ex (cov (designated S)) kids"
      using nd cov_unfold [of "designated S" ?t] by simp
    from "2.IH" [OF None "2.prems"(1,2,3) kids tU _ c]
    show ?thesis using None by simp
  qed
next
  case (3 p cache)
  have f: "cov (designated S) t0 = False" using "3.prems"(7) by simp
  have "cache_inv U S (cache(ptr t0 \<mapsto> cov (designated S) t0))"
    using cache_inv_update [OF "3.prems"(3) "3.prems"(1) "3.prems"(5)] .
  then show ?case using f "3.prems"(6) by (simp add: fun_upd_def)
next
  case (4 p c cs cache)
  obtain b cache' where l: "lookup (Some c) cache = (b, cache')"
    by (cases "lookup (Some c) cache")
  have cU: "\<forall>t. Some c = Some t \<longrightarrow> t \<in> U" using "4.prems"(4) by simp
  from "4.IH"(1) [OF "4.prems"(1,2,3) cU] l
  have b: "b = cov (designated S) c" and inv': "cache_inv U S cache'" by auto
  show ?case
  proof (cases b)
    case True
    then have t: "cov (designated S) t0 = True" using "4.prems"(7) b by simp
    have "cache_inv U S (cache'(ptr t0 \<mapsto> cov (designated S) t0))"
      using cache_inv_update [OF inv' "4.prems"(1) "4.prems"(5)] .
    then show ?thesis using l True t "4.prems"(6) by (simp add: fun_upd_def)
  next
    case False
    have cs: "set cs \<subseteq> U" using "4.prems"(4) by simp
    have c: "cov (designated S) t0 = list_ex (cov (designated S)) cs"
      using "4.prems"(7) False b by simp
    from "4.IH"(2) [OF l [symmetric] False "4.prems"(1,2) inv' cs "4.prems"(5,6) c]
    show ?thesis using l False by simp
  qed
qed

lemma fill_cache_eq:
  "fill_cache stack cache =
     (\<lambda>a. if a \<in> set (concat (map ptrs stack)) then Some True else cache a)"
proof (induction stack cache rule: fill_cache.induct)
  case (1 cache)
  then show ?case by simp
next
  case (2 p ty a d ns at kids stack cache)
  show ?case
    unfolding fill_cache.simps "2.IH"
    by (rule ext) (auto simp: ptrs_def)
qed

lemma DeepCopySubtrees_projection:
  assumes "distinct (ptrs root)"
  shows "DeepCopySubtrees root subtrees =
           projection (claimed_inclusion (designated subtrees)) root"
proof -
  let ?U = "set (subnodes root)"
  let ?sel = "\<lambda>node. lookup (Some node)"
  have inj: "inj_on ptr ?U" using assms by (simp add: ptrs_def distinct_map)
  have ok: "sel_ok ?U (cache_inv ?U subtrees) (cov (designated subtrees)) ?sel"
    unfolding sel_ok_def
  proof (intro allI impI)
    fix c s assume c: "c \<in> ?U" and s: "cache_inv ?U subtrees s"
    from lookup_correct(1) [OF inj subnodes_closed s, of "Some c"] c
    show "fst (lookup (Some c) s) = cov (designated subtrees) c
            \<and> cache_inv ?U subtrees (snd (lookup (Some c) s))"
      by simp
  qed
  have init: "cache_inv ?U subtrees (fill_cache subtrees Map.empty)"
    unfolding cache_inv_def fill_cache_eq by (auto simp: designated_def cov_def)
  have incl: "(\<lambda>c. cov (designated subtrees) c \<or> Type c = TextNode) =
                claimed_inclusion (designated subtrees)"
    by (rule ext) (auto simp: cov_def claimed_inclusion_def)
  have "fst (rec root (Copy root) ?sel (fill_cache subtrees Map.empty)) =
          set_children (Copy root)
            (map (projection (\<lambda>c. cov (designated subtrees) c \<or> Type c = TextNode))
               (filter (\<lambda>c. cov (designated subtrees) c \<or> Type c = TextNode) (children root)))"
    using rec_invariant(1) [of ?U "cache_inv ?U subtrees" "cov (designated subtrees)" ?sel
        "fill_cache subtrees Map.empty" root "Copy root"] ok init
    by simp
  then show ?thesis
    unfolding DeepCopySubtrees_def DeepCopyFunc_def incl projection_root by simp
qed

lemma projection_all: "projection (\<lambda>c. True) n = without_namespace n"
  by (induction n rule: without_namespace.induct) (simp cong: map_cong)

text \<open>
  C1 (as the code has it).  In predicate mode (\<^verbatim>\<open>DeepCopyFunc\<close> with a test that keeps no
  state) the copy of a node is put under the copy of its parent exactly when the test
  accepts the node or the node is a text node; what its descendants are plays no part.
  In designated-set mode (\<^verbatim>\<open>DeepCopySubtrees\<close>, on a tree whose nodes have distinct
  addresses) the copy is put there exactly when the node lies in a designated subtree, or
  is a text node, or has a descendant that lies in a designated subtree.
\<close>

theorem C1_inclusion_by_mode:
  "fst (DeepCopyFunc root (\<lambda>node s. (relevance node, s)) s) =
     projection (\<lambda>c. relevance c \<or> Type c = TextNode) root
   \<and> (distinct (ptrs root) \<longrightarrow>
        DeepCopySubtrees root subtrees =
          projection (claimed_inclusion (designated subtrees)) root)"
  by (intro conjI impI, rule DeepCopyFunc_projection, erule DeepCopySubtrees_projection)

theorem C1_inclusion_by_mode_witness:
  "distinct (ptrs ex_root)
   \<and> fst (DeepCopyFunc ex_root (\<lambda>node s. (Data node = ''span'', s)) ()) =
       Node 0 DocumentNode 0 [] [] [] []
   \<and> DeepCopySubtrees ex_root [ex_span] =
       Node 0 DocumentNode 0 [] [] [] [ex_div]"
proof -
  have d: "distinct (ptrs ex_root)"
    by (simp add: ptrs_def ex_root_def ex_div_def ex_span_def ex_text_def)
  from C1_inclusion_by_mode [of ex_root "\<lambda>node. Data node = ''span''" "()" "[ex_span]"] d
  show ?thesis
    by (simp add: ptrs_def ex_root_def ex_div_def ex_span_def ex_text_def
        claimed_inclusion_def designated_def)
qed

text \<open>
  C1 as the specification states it fails in predicate mode: in \<open>ex_root\<close> the element
  \<open>div\<close> is a child of the root and has the relevant descendant \<open>span\<close>, so the stated
  test includes it, but the predicate rejects \<open>div\<close> itself and the projection is the root
  alone.
\<close>

theorem C1_counterexample:
  "ex_div \<in> set (children ex_root)
   \<and> claimed_inclusion (\<lambda>node. Data node = ''span'') ex_div
   \<and> children (fst (DeepCopyFunc ex_root (\<lambda>node s. (Data node = ''span'', s)) ())) = []
   \<and> fst (DeepCopyFunc ex_root (\<lambda>node s. (Data node = ''span'', s)) ())
       \<noteq> projection (claimed_inclusion (\<lambda>node. Data node = ''span'')) ex_root"
  by (simp add: DeepCopyFunc_def Copy_def set_children_def claimed_inclusion_def
      ex_root_def ex_div_def ex_span_def ex_text_def)

text \<open>
  C2 (as the code has it).  With a predicate that accepts no node the projection never
  fails and keeps, below the root, exactly the text nodes that hang from it through text
  nodes only; so it is the bare copy of the root whenever the root has no text child.
\<close>

theorem C2_reject_all_keeps_text:
  "fst (DeepCopyFunc T (\<lambda>node s. (False, s)) s) = projection (\<lambda>c. Type c = TextNode) T
   \<and> (\<not> list_ex (\<lambda>c. Type c = TextNode) (children T) \<longrightarrow>
        fst (DeepCopyFunc T (\<lambda>node s. (False, s)) s) = Copy T)"
proof -
  have p: "fst (DeepCopyFunc T (\<lambda>node s. (False, s)) s) = projection (\<lambda>c. Type c = TextNode) T"
    using DeepCopyFunc_projection [of T "\<lambda>node. False" s] by simp
  have "\<not> list_ex (\<lambda>c. Type c = TextNode) (children T) \<Longrightarrow>
          projection (\<lambda>c. Type c = TextNode) T = Copy T"
    by (cases T) (simp add: Copy_def list_ex_iff filter_empty_conv [THEN iffD2])
  with p show ?thesis by simp
qed

theorem C2_reject_all_keeps_text_witness:
  "\<not> list_ex (\<lambda>c. Type c = TextNode) (children ex_root)
   \<and> fst (DeepCopyFunc ex_root (\<lambda>node s. (False, s)) ()) = Node 0 DocumentNode 0 [] [] [] []"
  using C2_reject_all_keeps_text [of ex_root "()"]
  by (simp add: ex_root_def ex_div_def Copy_def)

text \<open>
  C2 as the specification states it fails when the root has a text child: projecting the
  element \<open>span\<close> of the example, whose only child is a text node, with the predicate that
  accepts nothing gives a copy that still has that child.
\<close>

theorem C2_counterexample:
  "children (fst (DeepCopyFunc ex_span (\<lambda>node s. (False, s)) ())) =
     [Node 3 TextNode 0 ''hi'' [] [] []]"
  by (simp add: DeepCopyFunc_def Copy_def set_children_def ex_span_def ex_text_def)

text \<open>
  C3.  \<^verbatim>\<open>DeepCopy\<close> gives a copy with the same shape as the source: every node with
  its type, tag atom, data (tag name or text) and attribute list as in the source, and the
  children in the source's order.  Only the \<^verbatim>\<open>Namespace\<close> field of the nodes, which
  \<^verbatim>\<open>Copy\<close> does not set, is empty in the copy.
\<close>

theorem C3_accept_all_is_clone: "DeepCopy T = without_namespace T"
  using DeepCopyFunc_projection [of T "\<lambda>node. True" "()"]
  by (simp add: DeepCopy_def DeepCopyFunc_def projection_all)

section \<open>Properties of the extraction stage\<close>

declare container_cards.simps [simp del]
declare href_loop.simps [simp del]

lemma on_success_Inr [simp]: "on_success (Inr x) f = f x"
  by (simp add: on_success_def)

lemma on_success_Inl [simp]: "on_success (Inl e) f = Inl e"
  by (simp add: on_success_def)

lemma on_success_eq_Inr:
  "on_success m f = Inr y \<longleftrightarrow> (\<exists>x. m = Inr x \<and> f x = Inr y)"
  by (cases m) auto

lemma ImportPath_err [simp]: "ImportPath env (task\<lparr>err := e\<rparr>) = ImportPath env task"
  by (simp add: ImportPath_def ImportPath_of_def Let_def)

lemma AddNote_err [simp]: "AddNote (task\<lparr>err := e\<rparr>) f b i = (AddNote task f b i)\<lparr>err := e\<rparr>"
  by (simp add: AddNote_def)

lemma rewrite_ids_err [simp]:
  "rewrite_ids env (task\<lparr>err := e\<rparr>) pattern nodes root = rewrite_ids env task pattern nodes root"
  by (induction nodes arbitrary: root) (auto split: option.splits)

lemma prefix_spans_err [simp]:
  "prefix_spans env (task\<lparr>err := e\<rparr>) spans root = prefix_spans env task spans root"
  by (induction spans arbitrary: root) (auto split: option.splits intro: on_success_cong)

lemma put_err_simps [simp]:
  "put_err e (Inl x) = Inl x"
  "put_err e (Inr (root, task)) = Inr (root, task\<lparr>err := e\<rparr>)"
  by (simp_all add: put_err_def)

lemma put_err_on_success:
  "(\<And>x. put_err e (f x) = g x) \<Longrightarrow> put_err e (on_success m f) = on_success m g"
  by (cases m) auto

lemma declaration_cards_err:
  "declaration_cards env sel vs root (task\<lparr>err := e\<rparr>) = put_err e (declaration_cards env sel vs root task)"
proof (induction vs arbitrary: root task)
  case Nil
  then show ?case by simp
next
  case (Cons v vs)
  show ?case
    by (simp add: Cons.IH put_err_on_success)
qed

lemma container_card_err:
  "container_card env f h root (task\<lparr>err := e\<rparr>) = put_err e (container_card env f h root task)"
  by (simp add: container_card_def put_err_on_success)

lemma container_cards_err:
  "container_cards env fs hs i root (task\<lparr>err := e\<rparr>) = put_err e (container_cards env fs hs i root task)"
proof (induction env fs hs i root task rule: container_cards.induct)
  case (1 env fs hs i root task)
  note l = container_cards.simps [of env fs hs i root "task\<lparr>err := e\<rparr>"]
  note r = container_cards.simps [of env fs hs i root task]
  show ?case
  proof (cases "i < length fs \<and> i < length hs")
    case True
    show ?thesis
    proof (cases "container_card env (fs ! i) (hs ! i) root task")
      case (Inl x)
      then show ?thesis unfolding l r using True
        by (simp add: container_card_err)
    next
      case (Inr y)
      obtain root' task' where y: "y = (root', task')" by (cases y)
      from "1.IH" [of "(root', task')" root' task'] True Inr y
      have "container_cards env fs hs (i + 1) root' (task'\<lparr>err := e\<rparr>) =
            put_err e (container_cards env fs hs (i + 1) root' task')"
        by simp
      then show ?thesis unfolding l r using True Inr y
        by (simp add: container_card_err)
    qed
  next
    case False
    then show ?thesis unfolding l r by auto
  qed
qed

lemma function_cards_err:
  "function_cards env root (task\<lparr>err := e\<rparr>) = put_err e (function_cards env root task)"
  by (simp add: function_cards_def Let_def container_cards_err)

lemma type_cards_err:
  "type_cards env root (task\<lparr>err := e\<rparr>) = put_err e (type_cards env root task)"
  by (simp add: type_cards_def Let_def container_cards_err)

lemma HtmlProcessor_task_err:
  "HtmlProcessor_task env (task\<lparr>err := e\<rparr>) =
     map_sum id (\<lambda>t. t\<lparr>err := e\<rparr>) (HtmlProcessor_task env task)"
  unfolding HtmlProcessor_task_def
  apply (simp split: sum.splits)
  apply (intro allI impI)
  subgoal for root
    apply (cases "Modify root (absolute_hrefs env (url_Parse env (url task)))")
     apply simp
    subgoal for root1
      apply (simp add: declaration_cards_err)
      apply (cases "declaration_cards env VarSpanSelector (css_Select env VarSelector root1 (ptr root1)) root1 task")
       apply simp
      subgoal for y
        apply (cases y)
        subgoal for root2 task2
          apply (simp add: declaration_cards_err)
          apply (cases "declaration_cards env ConstSpanSelector (css_Select env ConstSelector root2 (ptr root2)) root2 task2")
           apply simp
          subgoal for y
            apply (cases y)
            subgoal for root3 task3
              apply (simp add: function_cards_err)
              apply (cases "function_cards env root3 task3")
               apply simp
              subgoal for y
                apply (cases y)
                subgoal for root4 task4
                  apply (simp add: type_cards_err)
                  apply (cases "type_cards env root4 task4")
                   apply simp
                  subgoal for y
                    by (cases y) simp
                  done
                done
              done
            done
          done
        done
      done
    done
  done

text \<open>
  C4 (as the code has it).  The extraction stage does not look at the error of a task: a
  task that carries a fetch error is processed exactly as the same task without the error
  is, and the result differs in the error only.  When the stage completes, the task is
  sent on once and carries the error it came with.
\<close>

theorem C4_error_not_inspected:
  "HtmlProcessor_task env (task\<lparr>err := e\<rparr>) =
     map_sum id (\<lambda>t. t\<lparr>err := e\<rparr>) (HtmlProcessor_task env task)
   \<and> (HtmlProcessor_task env task = Inr task' \<longrightarrow>
        err task' = err task \<and> HtmlProcessor env [task] = ([task'], None))"
proof -
  have "err task' = err task" if r: "HtmlProcessor_task env task = Inr task'"
  proof -
    have "HtmlProcessor_task env (task\<lparr>err := err task\<rparr>) = Inr (task'\<lparr>err := err task\<rparr>)"
      unfolding HtmlProcessor_task_err r by simp
    then have "task' = task'\<lparr>err := err task\<rparr>" using r by simp
    then show ?thesis by (metis Task.select_convs(5) Task.surjective Task.update_convs(5))
  qed
  then show ?thesis by (simp add: HtmlProcessor_task_err)
qed

lemma ex_spaced: "HtmlProcessor_task ex_env (ex_failed_task ex_page_spaced) =
    Inr ((ex_failed_task ex_page_spaced)\<lparr>task_notes :=
       [ex_card]\<rparr>)"
  by code_simp

lemma ex_last: "HtmlProcessor_task ex_env (ex_failed_task ex_page_last) = Inl NilDereference"
  by code_simp

theorem C4_error_not_inspected_witness:
  "HtmlProcessor_task ex_env (ex_failed_task ex_page_spaced) =
     Inr ((ex_failed_task ex_page_spaced)\<lparr>task_notes := [ex_card]\<rparr>)
   \<and> err ((ex_failed_task ex_page_spaced)\<lparr>task_notes := [ex_card]\<rparr>) =
       err (ex_failed_task ex_page_spaced)
   \<and> HtmlProcessor ex_env [ex_failed_task ex_page_spaced] =
       ([(ex_failed_task ex_page_spaced)\<lparr>task_notes := [ex_card]\<rparr>], None)"
  using C4_error_not_inspected [where env = ex_env and task = "ex_failed_task ex_page_spaced"
      and task' = "(ex_failed_task ex_page_spaced)\<lparr>task_notes := [ex_card]\<rparr>"] ex_spaced
  by simp

text \<open>
  C4 as the specification states it fails: extraction is not skipped for a task that
  carries an error.  The first task below has an error and a payload with one variable
  block, and leaves the stage with the card of that block added; the second has an error
  and a payload whose block is the last child of its parent, and the stage stops on it
  instead of sending it on.
\<close>

theorem C4_counterexample:
  "err (ex_failed_task ex_page_spaced) \<noteq> None
   \<and> task_notes (ex_failed_task ex_page_spaced) = []
   \<and> HtmlProcessor_task ex_env (ex_failed_task ex_page_spaced) =
       Inr ((ex_failed_task ex_page_spaced)\<lparr>task_notes :=
          [ex_card]\<rparr>)
   \<and> err (ex_failed_task ex_page_last) \<noteq> None
   \<and> HtmlProcessor ex_env [ex_failed_task ex_page_last] = ([], Some NilDereference)"
  using ex_spaced ex_last by (simp add: ex_failed_task_def)

text \<open>
  C5 (where the code departs from it).  The loop over the attributes of a node advances
  its counter twice in every round, so it looks at the attributes at positions 0, 2, 4, ...
  only.  A reference attribute at position 1, here behind a \<^verbatim>\<open>class\<close> attribute, is
  returned as it was, whatever the libraries answer.
\<close>

theorem C5_href_at_odd_index_skipped:
  "href_loop env base 0
     [\<lparr>Namespace = [], Key = ''class'', Val = c\<rparr>, \<lparr>Namespace = [], Key = ''href'', Val = v\<rparr>]
   = Inr [\<lparr>Namespace = [], Key = ''class'', Val = c\<rparr>, \<lparr>Namespace = [], Key = ''href'', Val = v\<rparr>]"
  by (subst href_loop.simps, simp, subst href_loop.simps, simp)

text \<open>With the example libraries: the reference is resolved at position 0 and not at position 1.\<close>

lemma C5_example:
  "absolute_hrefs ex_env (Some ''https://pkg.go.dev'')
     (Node 7 ElementNode 0 ''a'' []
        [\<lparr>Namespace = [], Key = ''class'', Val = ''Documentation-source''\<rparr>,
         \<lparr>Namespace = [], Key = ''href'', Val = ''/fmt#Println''\<rparr>] [])
   = Inr (Node 7 ElementNode 0 ''a'' []
        [\<lparr>Namespace = [], Key = ''class'', Val = ''Documentation-source''\<rparr>,
         \<lparr>Namespace = [], Key = ''href'', Val = ''/fmt#Println''\<rparr>] [])
   \<and> absolute_hrefs ex_env (Some ''https://pkg.go.dev'')
     (Node 7 ElementNode 0 ''a'' []
        [\<lparr>Namespace = [], Key = ''href'', Val = ''/fmt#Println''\<rparr>,
         \<lparr>Namespace = [], Key = ''class'', Val = ''Documentation-source''\<rparr>] [])
   = Inr (Node 7 ElementNode 0 ''a'' []
        [\<lparr>Namespace = [], Key = ''href'', Val = ''https://pkg.go.dev/fmt#Println''\<rparr>,
         \<lparr>Namespace = [], Key = ''class'', Val = ''Documentation-source''\<rparr>] [])"
  by code_simp




lemma count_mismatch_Inl [simp]: "count_mismatch (Inl e) = header_count_failure e"
  by (simp add: count_mismatch_def)




























text \<open>
  C10 (where the code departs from it).  The collection of the paragraphs behind a
  declaration block reads \<^verbatim>\<open>variable.NextSibling.NextSibling\<close> without a test of the
  first pointer: for a block that is the last child of its parent this is a nil
  dereference.  On the page whose only variable block closes its section the collection
  faults, and with it the whole stage.
\<close>

theorem C10_last_child_faults:
  "declaration_nodes (ex_section ''Documentation-variables'' [ex_declaration]) 5 = Inl NilDereference
   \<and> HtmlProcessor_task ex_env ((NewTask ''https://pkg.go.dev/fmt'' ''Go::Std::fmt'')\<lparr>html := ex_page_last\<rparr>)
       = Inl NilDereference"
  by code_simp

section \<open>Properties of the fetch and upload stages\<close>

text \<open>
  C7 (where the code departs from it).  After a transport error the task is sent on with
  the error attached, and the loop goes round with the same task: it is fetched again, and
  a second transport error sends the same task a second time.
\<close>

theorem C7_transport_error_fetched_again:
  "HtmlDownloader [task] [TransportError e, TransportError e'] =
     ([task\<lparr>err := Some (''HtmlDownloader::failed to downlaod html for task ''
                           @ Task_String task @ '': '' @ e)\<rparr>,
       task\<lparr>err := Some (''HtmlDownloader::failed to downlaod html for task ''
                           @ Task_String (task\<lparr>err := Some (''HtmlDownloader::failed to downlaod html for task ''
                           @ Task_String task @ '': '' @ e)\<rparr>) @ '': '' @ e')\<rparr>],
      Fetching (task\<lparr>err := Some (''HtmlDownloader::failed to downlaod html for task ''
                           @ Task_String (task\<lparr>err := Some (''HtmlDownloader::failed to downlaod html for task ''
                           @ Task_String task @ '': '' @ e)\<rparr>) @ '': '' @ e')\<rparr>))"
  by (simp add: HtmlDownloader_def Let_def)

lemma created_append [simp]: "created (xs @ ys) = created xs @ created ys"
  by (induction xs rule: created.induct) simp_all

lemma upload_notes_created [simp]: "created (fst (upload_notes ns rs)) = []"
  by (induction ns rs rule: upload_notes.induct) (auto split: reply.splits prod.splits)

lemma upload_tasks_reached:
  "\<exists>k\<le>length tasks.
     created (fst (upload_tasks decks tasks replies)) =
       filter (\<lambda>d. d \<notin> set decks) (map deck (take k tasks))
     \<and> (snd (upload_tasks decks tasks replies) = Finished () \<longrightarrow> k = length tasks)"
proof (induction tasks arbitrary: replies)
  case Nil
  show ?case by simp
next
  case (Cons task tasks)
  let ?P = "\<lambda>d. d \<notin> set decks"
  have stop: "\<exists>k\<le>length (task # tasks).
       cs = filter ?P (map deck (take k (task # tasks)))
       \<and> (p = Finished () \<longrightarrow> k = length (task # tasks))"
    if "cs = filter ?P [deck task]" and "p \<noteq> Finished ()" for cs and p :: "unit progress"
    using that by (intro exI [of _ "Suc 0"]) simp
  have cont: "\<exists>k\<le>length (task # tasks).
       cs = filter ?P (map deck (take k (task # tasks)))
       \<and> (p = Finished () \<longrightarrow> k = length (task # tasks))"
    if cs: "cs = filter ?P [deck task] @ created (fst (upload_tasks decks tasks r))"
      and p: "p = snd (upload_tasks decks tasks r)" for cs p r
  proof -
    from Cons.IH [of r] obtain k where k: "k \<le> length tasks"
      "created (fst (upload_tasks decks tasks r)) = filter ?P (map deck (take k tasks))"
      "snd (upload_tasks decks tasks r) = Finished () \<longrightarrow> k = length tasks"
      by blast
    show ?thesis using cs p k by (intro exI [of _ "Suc k"]) simp
  qed
  show ?case
  proof (cases "deck task \<in> set decks")
    case True
    obtain calls p where n: "upload_notes (task_notes task) replies = (calls, p)"
      by (cases "upload_notes (task_notes task) replies")
    have c: "created calls = []" using upload_notes_created [of "task_notes task" replies] n by simp
    show ?thesis
    proof (cases p)
      case (Finished replies'')
      show ?thesis
        by (rule cont [of _ replies'']) (use True n Finished c in \<open>simp_all split: prod.splits\<close>)
    next
      case Awaiting
      show ?thesis by (rule stop) (use True n Awaiting c in simp_all)
    next
      case (Stopped e)
      show ?thesis by (rule stop) (use True n Stopped c in simp_all)
    qed
  next
    case False
    show ?thesis
    proof (cases replies)
      case Nil
      show ?thesis by (rule stop) (use False Nil in simp_all)
    next
      case (Cons r replies')
      show ?thesis
      proof (cases r)
        case (RestErr code)
        show ?thesis by (rule stop) (use False Cons RestErr in simp_all)
      next
        case Success
        obtain calls p where n: "upload_notes (task_notes task) replies' = (calls, p)"
          by (cases "upload_notes (task_notes task) replies'")
        have c: "created calls = []"
          using upload_notes_created [of "task_notes task" replies'] n by simp
        show ?thesis
        proof (cases p)
          case (Finished replies'')
          show ?thesis
            by (rule cont [of _ replies''])
               (use False Cons Success n Finished c in \<open>simp_all split: prod.splits\<close>)
        next
          case Awaiting
          show ?thesis by (rule stop) (use False Cons Success n Awaiting c in simp_all)
        next
          case (Stopped e)
          show ?thesis by (rule stop) (use False Cons Success n Stopped c in simp_all)
        qed
      qed
    qed
  qed
qed

text \<open>
  C8 (as the code has it).  Deck creation is guarded by the list of decks fetched before
  the loop, and that list is never extended.  In every run, however it ends or wherever it
  waits, the creation calls are, in order, the deck names of the tasks reached so far whose
  deck is not in that list, one call for each such task; the tasks reached are the first
  \<open>k\<close> of the queue, and all of them when the run uploads every task.  No deck of the list
  is ever created, and a run that could not fetch the list creates nothing.
\<close>

theorem C8_creation_per_task_outside_snapshot:
  "(\<exists>k\<le>length tasks.
      created (fst (NoteUploader (Inr decks) tasks replies)) =
        filter (\<lambda>d. d \<notin> set decks) (map deck (take k tasks))
      \<and> (snd (NoteUploader (Inr decks) tasks replies) = Finished () \<longrightarrow> k = length tasks))
   \<and> set (created (fst (NoteUploader (Inr decks) tasks replies))) \<inter> set decks = {}
   \<and> created (fst (NoteUploader (Inl e) tasks replies)) = []"
proof -
  have eq: "created (fst (NoteUploader (Inr decks) tasks replies)) =
            created (fst (upload_tasks decks tasks replies))"
    "snd (NoteUploader (Inr decks) tasks replies) = snd (upload_tasks decks tasks replies)"
    by (simp_all add: NoteUploader_def split: prod.splits)
  from upload_tasks_reached [of tasks decks replies] obtain k where k: "k \<le> length tasks"
    "created (fst (upload_tasks decks tasks replies)) =
       filter (\<lambda>d. d \<notin> set decks) (map deck (take k tasks))"
    "snd (upload_tasks decks tasks replies) = Finished () \<longrightarrow> k = length tasks"
    by blast
  have "set (created (fst (upload_tasks decks tasks replies))) \<inter> set decks = {}"
    unfolding k(2) by auto
  moreover have "created (fst (NoteUploader (Inl e) tasks replies)) = []"
    by (simp add: NoteUploader_def)
  ultimately show ?thesis unfolding eq using k by blast
qed

theorem C8_creation_per_task_outside_snapshot_witness:
  "snd (NoteUploader (Inr [''Go::Std::os''])
          [NewTask ''https://pkg.go.dev/fmt'' ''Go::Std::fmt'',
           NewTask ''https://pkg.go.dev/os'' ''Go::Std::os''] [Success]) = Finished ()
   \<and> created (fst (NoteUploader (Inr [''Go::Std::os''])
          [NewTask ''https://pkg.go.dev/fmt'' ''Go::Std::fmt'',
           NewTask ''https://pkg.go.dev/os'' ''Go::Std::os''] [Success])) = [''Go::Std::fmt'']"
proof -
  have f: "snd (NoteUploader (Inr [''Go::Std::os''])
          [NewTask ''https://pkg.go.dev/fmt'' ''Go::Std::fmt'',
           NewTask ''https://pkg.go.dev/os'' ''Go::Std::os''] [Success]) = Finished ()"
    by (simp add: NoteUploader_def NewTask_def)
  from C8_creation_per_task_outside_snapshot
         [of "[NewTask ''https://pkg.go.dev/fmt'' ''Go::Std::fmt'',
               NewTask ''https://pkg.go.dev/os'' ''Go::Std::os'']"
             "[''Go::Std::os'']" "[Success]"] f
  show ?thesis by (auto simp: NewTask_def)
qed

text \<open>
  C8 as the specification states it fails: two tasks name the same deck, which is not in
  the list fetched at the start, and the deck is created twice.
\<close>

theorem C8_counterexample:
  "created (fst (NoteUploader (Inr [])
      [NewTask ''https://pkg.go.dev/fmt'' ''Go::Std::fmt'',
       NewTask ''https://pkg.go.dev/fmt@go1.22.0'' ''Go::Std::fmt''] [Success, Success]))
   = [''Go::Std::fmt'', ''Go::Std::fmt'']"
  by (simp add: NoteUploader_def NewTask_def)

section \<open>Properties of the store\<close>

lemma write_cell_sound:
  assumes s: "sound m ma st0 st" and a: "fresh m st a"
    and w: "write_cell a f st = Some st'"
    and refs: "\<And>c. cell_refs (f c) \<subseteq> cell_refs c \<union> R" and attr: "\<And>c. cAttr (f c) = cAttr c"
    and R: "\<And>p. p \<in> R \<Longrightarrow> fresh m st p"
  shows "sound m ma st0 st' \<and> next_cell st' = next_cell st \<and> next_array st' = next_array st"
proof -
  obtain c where c: "cells st a = Some c" and st': "st' = st\<lparr>cells := (cells st)(a \<mapsto> f c)\<rparr>"
    using w by (auto simp: write_cell_def split: bind_splits)
  have wa: "well_allocated st'"
    using s a c refs [of c] attr [of c] R unfolding st' sound_def well_allocated_def fresh_def
    by (auto split: if_splits; blast)
  have fc: "fresh_closed m ma st'"
    using s a c refs [of c] attr [of c] R unfolding st' sound_def fresh_closed_def fresh_def
    by (auto split: if_splits; blast)
  have sb: "same_below m ma st0 st'"
    using s a unfolding st' sound_def same_below_def fresh_def by auto
  show ?thesis using wa fc sb s unfolding sound_def st' by simp
qed


lemma write_pointer_sound:
  assumes s: "sound m ma st0 st" and a: "fresh m st a" and q: "\<forall>p \<in> set_option q. fresh m st p"
  shows "write_cell a (\<lambda>k. k\<lparr>Parent := q\<rparr>) st = Some st' \<Longrightarrow>
           sound m ma st0 st' \<and> next_cell st' = next_cell st \<and> next_array st' = next_array st"
    and "write_cell a (\<lambda>k. k\<lparr>FirstChild := q\<rparr>) st = Some st' \<Longrightarrow>
           sound m ma st0 st' \<and> next_cell st' = next_cell st \<and> next_array st' = next_array st"
    and "write_cell a (\<lambda>k. k\<lparr>LastChild := q\<rparr>) st = Some st' \<Longrightarrow>
           sound m ma st0 st' \<and> next_cell st' = next_cell st \<and> next_array st' = next_array st"
    and "write_cell a (\<lambda>k. k\<lparr>PrevSibling := q\<rparr>) st = Some st' \<Longrightarrow>
           sound m ma st0 st' \<and> next_cell st' = next_cell st \<and> next_array st' = next_array st"
    and "write_cell a (\<lambda>k. k\<lparr>NextSibling := q\<rparr>) st = Some st' \<Longrightarrow>
           sound m ma st0 st' \<and> next_cell st' = next_cell st \<and> next_array st' = next_array st"
proof -
  note w = write_cell_sound [OF s a, where R = "set_option q" and st' = st']
  show "write_cell a (\<lambda>k. k\<lparr>Parent := q\<rparr>) st = Some st' \<Longrightarrow>
           sound m ma st0 st' \<and> next_cell st' = next_cell st \<and> next_array st' = next_array st"
    by (erule w) (use q in \<open>auto simp: cell_refs_def\<close>)
  show "write_cell a (\<lambda>k. k\<lparr>FirstChild := q\<rparr>) st = Some st' \<Longrightarrow>
           sound m ma st0 st' \<and> next_cell st' = next_cell st \<and> next_array st' = next_array st"
    by (erule w) (use q in \<open>auto simp: cell_refs_def\<close>)
  show "write_cell a (\<lambda>k. k\<lparr>LastChild := q\<rparr>) st = Some st' \<Longrightarrow>
           sound m ma st0 st' \<and> next_cell st' = next_cell st \<and> next_array st' = next_array st"
    by (erule w) (use q in \<open>auto simp: cell_refs_def\<close>)
  show "write_cell a (\<lambda>k. k\<lparr>PrevSibling := q\<rparr>) st = Some st' \<Longrightarrow>
           sound m ma st0 st' \<and> next_cell st' = next_cell st \<and> next_array st' = next_array st"
    by (erule w) (use q in \<open>auto simp: cell_refs_def\<close>)
  show "write_cell a (\<lambda>k. k\<lparr>NextSibling := q\<rparr>) st = Some st' \<Longrightarrow>
           sound m ma st0 st' \<and> next_cell st' = next_cell st \<and> next_array st' = next_array st"
    by (erule w) (use q in \<open>auto simp: cell_refs_def\<close>)
qed

lemma fresh_mono: "fresh m st a \<Longrightarrow> next_cell st \<le> next_cell st' \<Longrightarrow> fresh m st' a"
  by (auto simp: fresh_def)

lemma copy_slice_sound:
  assumes s: "sound m ma st0 st" and c: "copy_slice attr st = Some (attr', st')"
  shows "sound m ma st0 st' \<and> next_cell st' = next_cell st \<and> next_array st \<le> next_array st'
         \<and> (\<forall>b \<in> set_option attr'. ma \<le> b \<and> b < next_array st')"
proof (cases attr)
  case None
  then show ?thesis using s c by (auto simp: copy_slice_def)
next
  case (Some b)
  then obtain xs where xs: "arrays st b = Some xs" using c
    by (auto simp: copy_slice_def split: bind_splits)
  show ?thesis
  proof (cases "length xs > 0")
    case False
    then show ?thesis using s c Some xs by (auto simp: copy_slice_def)
  next
    case True
    then have st': "st' = st\<lparr>arrays := (arrays st)(next_array st \<mapsto> xs), next_array := next_array st + 1\<rparr>"
      and attr': "attr' = Some (next_array st)"
      using c Some xs by (auto simp: copy_slice_def)
    have wa: "well_allocated st'"
      using s unfolding st' sound_def well_allocated_def
      by (auto split: if_splits simp: less_Suc_eq; blast)
    have fc: "fresh_closed m ma st'"
      using s unfolding st' sound_def fresh_closed_def by auto
    have sb: "same_below m ma st0 st'"
      using s unfolding st' sound_def same_below_def by auto
    show ?thesis using wa fc sb s attr' unfolding sound_def st' by simp
  qed
qed

lemma store_Copy_sound:
  assumes s: "sound m ma st0 st" and c: "store_Copy node st = Some (cur, st')"
  shows "sound m ma st0 st' \<and> fresh m st' cur \<and> next_cell st \<le> next_cell st'
         \<and> next_array st \<le> next_array st'"
proof -
  obtain k attr st1 where k: "cells st node = Some k"
    and cs: "copy_slice (cAttr k) st = Some (attr, st1)"
    and cur: "cur = next_cell st1"
    and st': "st' = st1\<lparr>cells := (cells st1)(next_cell st1 \<mapsto>
                  \<lparr>Parent = None, FirstChild = None, LastChild = None, PrevSibling = None,
                   NextSibling = None, cType = cType k, cDataAtom = cDataAtom k,
                   cData = cData k, cNamespace = [], cAttr = attr\<rparr>),
               next_cell := next_cell st1 + 1\<rparr>"
    using c by (auto simp: store_Copy_def split: bind_splits)
  from copy_slice_sound [OF s cs]
  have s1: "sound m ma st0 st1" and nc: "next_cell st1 = next_cell st"
    and na: "next_array st \<le> next_array st1"
    and at: "\<forall>b \<in> set_option attr. ma \<le> b \<and> b < next_array st1"
    by auto
  have wa: "well_allocated st'"
    using s1 at unfolding st' sound_def well_allocated_def
    by (auto split: if_splits simp: less_Suc_eq cell_refs_def; blast)
  have fc: "fresh_closed m ma st'"
    using s1 at unfolding st' sound_def fresh_closed_def
    by (auto split: if_splits simp: cell_refs_def)
  have sb: "same_below m ma st0 st'"
    using s1 unfolding st' sound_def same_below_def by auto
  show ?thesis using wa fc sb s1 nc na unfolding sound_def st' cur fresh_def by simp
qed

lemma link_first_sound:
  assumes s: "sound m ma st0 st" and a: "fresh m st cpy" and b: "fresh m st cur"
    and w: "link_first cpy cur st = Some st'"
  shows "sound m ma st0 st' \<and> next_cell st' = next_cell st \<and> next_array st' = next_array st"
proof -
  obtain k where k: "cells st cpy = Some k" using w by (auto simp: link_first_def split: bind_splits)
  show ?thesis
  proof (cases "FirstChild k = None")
    case True
    then have "write_cell cpy (\<lambda>k. k\<lparr>FirstChild := Some cur\<rparr>) st = Some st'"
      using w k by (simp add: link_first_def)
    from write_pointer_sound(2) [OF s a _ this] b show ?thesis
      by simp
  next
    case False
    then show ?thesis using w k s by (auto simp: link_first_def)
  qed
qed

lemma link_prev_sound:
  assumes s: "sound m ma st0 st" and a: "\<forall>p \<in> set_option prev. fresh m st p" and b: "fresh m st cur"
    and w: "link_prev prev cur st = Some st'"
  shows "sound m ma st0 st' \<and> next_cell st' = next_cell st \<and> next_array st' = next_array st"
proof (cases prev)
  case None
  then show ?thesis using w s by (simp add: link_prev_def)
next
  case (Some p)
  then obtain st1 where w1: "write_cell cur (\<lambda>k. k\<lparr>PrevSibling := Some p\<rparr>) st = Some st1"
    and w2: "write_cell p (\<lambda>k. k\<lparr>NextSibling := Some cur\<rparr>) st1 = Some st'"
    using w by (auto simp: link_prev_def split: bind_splits)
  have p: "fresh m st p" using a Some by simp
  from write_pointer_sound(4) [OF s b _ w1] p
  have s1: "sound m ma st0 st1" and n1: "next_cell st1 = next_cell st" "next_array st1 = next_array st"
    by auto
  have p1: "fresh m st1 p" and b1: "fresh m st1 cur" using p b n1 by (auto simp: fresh_def)
  from write_pointer_sound(5) [OF s1 p1 _ w2] b1 n1 show ?thesis
    by auto
qed

lemma store_rec_sound:
  fixes sel :: "Store \<Rightarrow> addr \<Rightarrow> 's \<Rightarrow> bool \<times> 's"
  shows "sound m ma st0 st \<Longrightarrow> fresh m st cpy \<Longrightarrow>
           store_rec n root cpy sel s st = Some (st', s') \<Longrightarrow>
           sound m ma st0 st' \<and> next_cell st \<le> next_cell st' \<and> next_array st \<le> next_array st'"
    and "sound m ma st0 st \<Longrightarrow> fresh m st cpy \<Longrightarrow> (\<forall>p \<in> set_option prev. fresh m st p) \<Longrightarrow>
           store_rec_loop n c prev cpy sel s st = Some (prev', st', s') \<Longrightarrow>
           sound m ma st0 st' \<and> next_cell st \<le> next_cell st' \<and> next_array st \<le> next_array st'
           \<and> (\<forall>p \<in> set_option prev'. fresh m st' p)"
proof (induction n root cpy sel s st and n c prev cpy sel s st arbitrary: st' s' and prev' st' s'
       rule: store_rec_store_rec_loop.induct)
  case (1 root cpy sel s st)
  then show ?case by simp
next
  case (2 n root cpy sel s st)
  from "2.prems"(3) obtain r prev st1 where r: "cells st root = Some r"
    and l: "store_rec_loop n (FirstChild r) None cpy sel s st = Some (prev, st1, s')"
    and w: "write_cell cpy (\<lambda>k. k\<lparr>LastChild := prev\<rparr>) st1 = Some st'"
    by (auto split: bind_splits)
  from "2.IH" [OF r "2.prems"(1,2) _ l]
  have s1: "sound m ma st0 st1" and n1: "next_cell st \<le> next_cell st1"
    and a1: "next_array st \<le> next_array st1"
    and p: "\<forall>p \<in> set_option prev. fresh m st1 p"
    by auto
  have c1: "fresh m st1 cpy" using "2.prems"(2) n1 by (rule fresh_mono)
  from write_pointer_sound(3) [OF s1 c1 p w] n1 a1 show ?case
    by auto
next
  case (3 c prev cpy sel s st)
  then show ?case by simp
next
  case (4 n prev cpy sel s st)
  then show ?case by simp
next
  case (5 n c prev cpy sel s st)
  from "5.prems"(4) obtain cc where cc: "cells st c = Some cc"
    by (auto split: bind_splits)
  obtain b s1 where sl: "sel st c s = (b, s1)" by (cases "sel st c s")
  show ?case
  proof (cases "b \<or> cType cc = TextNode")
    case False
    then have "store_rec_loop n (NextSibling cc) prev cpy sel s1 st = Some (prev', st', s')"
      using "5.prems"(4) cc sl by simp
    from "5.IH"(3) [OF cc sl [symmetric] False "5.prems"(1,2,3) this] show ?thesis .
  next
    case True
    from "5.prems"(4) cc sl True obtain cur st1 st2 st3 st4 st5 s2 cc' where
      cp: "store_Copy c st = Some (cur, st1)"
      and w2: "write_cell cur (\<lambda>k. k\<lparr>Parent := Some cpy\<rparr>) st1 = Some st2"
      and w3: "link_first cpy cur st2 = Some st3"
      and w4: "link_prev prev cur st3 = Some st4"
      and rc: "store_rec n c cur sel s1 st4 = Some (st5, s2)"
      and cc': "cells st5 c = Some cc'"
      and lp: "store_rec_loop n (NextSibling cc') (Some cur) cpy sel s2 st5 = Some (prev', st', s')"
      by (auto split: bind_splits if_splits)
    from store_Copy_sound [OF "5.prems"(1) cp]
    have s1: "sound m ma st0 st1" and f1: "fresh m st1 cur" and n1: "next_cell st \<le> next_cell st1"
      and a1: "next_array st \<le> next_array st1"
      by auto
    have c1: "fresh m st1 cpy" using "5.prems"(2) n1 by (rule fresh_mono)
    have p1: "\<forall>p \<in> set_option prev. fresh m st1 p" using "5.prems"(3) n1 by (auto intro: fresh_mono)
    from write_pointer_sound(1) [OF s1 f1 _ w2] c1
    have s2: "sound m ma st0 st2" and n2: "next_cell st2 = next_cell st1"
      and a2: "next_array st2 = next_array st1"
      by auto
    have f2: "fresh m st2 cur" "fresh m st2 cpy" "\<forall>p \<in> set_option prev. fresh m st2 p"
      using f1 c1 p1 n2 by (auto simp: fresh_def)
    from link_first_sound [OF s2 f2(2) f2(1) w3]
    have s3: "sound m ma st0 st3" and n3: "next_cell st3 = next_cell st2"
      and a3: "next_array st3 = next_array st2" by auto
    have f3: "fresh m st3 cur" "fresh m st3 cpy" "\<forall>p \<in> set_option prev. fresh m st3 p"
      using f2 n3 by (auto simp: fresh_def)
    from link_prev_sound [OF s3 f3(3) f3(1) w4]
    have s4: "sound m ma st0 st4" and n4: "next_cell st4 = next_cell st3"
      and a4: "next_array st4 = next_array st3" by auto
    have f4: "fresh m st4 cur" "fresh m st4 cpy"
      using f3 n4 by (auto simp: fresh_def)
    from "5.IH"(1) [OF cc sl [symmetric] True cp refl w2 w3 w4 s4 f4(1) rc]
    have s5: "sound m ma st0 st5" and n5: "next_cell st4 \<le> next_cell st5"
      and a5: "next_array st4 \<le> next_array st5"
      by auto
    have f5: "fresh m st5 cur" "fresh m st5 cpy"
      using f4 n5 by (auto intro: fresh_mono)
    have "sound m ma st0 st' \<and> next_cell st5 \<le> next_cell st' \<and> next_array st5 \<le> next_array st'
           \<and> (\<forall>p \<in> set_option prev'. fresh m st' p)"
      by (rule "5.IH"(2) [OF cc sl [symmetric] True cp refl w2 w3 w4 rc refl cc' s5 f5(2) _ lp])
         (use f5 in auto)
    then show ?thesis using n1 n2 n3 n4 n5 a1 a2 a3 a4 a5 by simp
  qed
qed

lemma sound_start: "well_allocated st \<Longrightarrow> sound (next_cell st) (next_array st) st st"
  by (fastforce simp: sound_def same_below_def fresh_closed_def well_allocated_def not_le [symmetric])

lemma store_DeepCopyFunc_sound:
  assumes s: "sound m ma st0 st" and d: "store_DeepCopyFunc n root sel s0 st = Some (p, st', s')"
  shows "sound m ma st0 st' \<and> fresh (next_cell st) st' p \<and> m \<le> next_cell st
         \<and> next_cell st \<le> next_cell st' \<and> next_array st \<le> next_array st'"
proof -
  from d obtain st1 where c: "store_Copy root st = Some (p, st1)"
    and r: "store_rec n root p sel s0 st1 = Some (st', s')"
    by (auto simp: store_DeepCopyFunc_def split: bind_splits)
  from store_Copy_sound [OF s c]
  have s1: "sound m ma st0 st1" and f1: "fresh m st1 p" and n1: "next_cell st \<le> next_cell st1"
    and a1: "next_array st \<le> next_array st1"
    by auto
  have pn: "next_cell st \<le> p"
    using c by (auto simp: store_Copy_def copy_slice_def split: bind_splits option.splits if_splits)
  from store_rec_sound(1) [OF s1 f1 r]
  have s2: "sound m ma st0 st'" and n2: "next_cell st1 \<le> next_cell st'"
    and a2: "next_array st1 \<le> next_array st'" by auto
  show ?thesis using s s2 f1 pn n1 n2 a1 a2 by (auto simp: fresh_def sound_def)
qed

lemma ptrs_Node [simp]: "ptrs (Node p ty a d ns at kids) = p # concat (map ptrs kids)"
  by (simp add: ptrs_def [abs_def] map_concat comp_def)

lemma read_region:
  assumes c: "closed_region st A B" and g: "agree A B st st'"
  shows "(\<forall>a \<in> A. tree_of k st' a = tree_of k st a)
       \<and> (\<forall>x. set_option x \<subseteq> A \<longrightarrow> forest_of k st' x = forest_of k st x)"
proof (induction k)
  case 0
  then show ?case by simp
next
  case (Suc k)
  have t: "tree_of (Suc k) st' a = tree_of (Suc k) st a" if a: "a \<in> A" for a
  proof (cases "cells st a")
    case None
    then show ?thesis using g a by (simp add: agree_def)
  next
    case (Some cl)
    have cl': "cells st' a = Some cl" using g a Some by (simp add: agree_def)
    have f: "set_option (FirstChild cl) \<subseteq> A" and b: "set_option (cAttr cl) \<subseteq> B"
      using c a Some by (auto simp: closed_region_def)
    have "forest_of k st' (FirstChild cl) = forest_of k st (FirstChild cl)"
      using Suc f by blast
    moreover have "(case cAttr cl of None \<Rightarrow> Some [] | Some b \<Rightarrow> arrays st' b) =
                   (case cAttr cl of None \<Rightarrow> Some [] | Some b \<Rightarrow> arrays st b)"
      using b g by (auto simp: agree_def split: option.splits)
    ultimately show ?thesis using Some cl' by simp
  qed
  have f: "forest_of (Suc k) st' x = forest_of (Suc k) st x" if x: "set_option x \<subseteq> A" for x
  proof (cases x)
    case None
    then show ?thesis by simp
  next
    case (Some a)
    then have a: "a \<in> A" using x by simp
    have ta: "tree_of k st' a = tree_of k st a" using Suc a by blast
    show ?thesis
    proof (cases "cells st a")
      case None
      then have "cells st' a = None" using g a by (simp add: agree_def)
      then show ?thesis using None Some by (simp split: bind_splits)
    next
      case (Some cl)
      have cl': "cells st' a = Some cl" using g a Some by (simp add: agree_def)
      have "set_option (NextSibling cl) \<subseteq> A" using c a Some by (auto simp: closed_region_def)
      then have "forest_of k st' (NextSibling cl) = forest_of k st (NextSibling cl)"
        using Suc by blast
      then show ?thesis using ta Some cl' \<open>x = Some a\<close> by simp
    qed
  qed
  show ?case using t f by blast
qed

lemma nodes_region:
  assumes c: "closed_region st A B"
  shows "(\<forall>a t. a \<in> A \<longrightarrow> tree_of k st a = Some t \<longrightarrow> set (ptrs t) \<subseteq> A)
       \<and> (\<forall>x ts. set_option x \<subseteq> A \<longrightarrow> forest_of k st x = Some ts \<longrightarrow>
             (\<forall>t \<in> set ts. set (ptrs t) \<subseteq> A))"
proof (induction k)
  case 0
  then show ?case by simp
next
  case (Suc k)
  have t: "set (ptrs t) \<subseteq> A" if a: "a \<in> A" and r: "tree_of (Suc k) st a = Some t" for a t
  proof -
    from r obtain cl attr kids where cl: "cells st a = Some cl"
      and kids: "forest_of k st (FirstChild cl) = Some kids"
      and t: "t = Node a (cType cl) (cDataAtom cl) (cData cl) (cNamespace cl) attr kids"
      by (auto split: bind_splits)
    have "set_option (FirstChild cl) \<subseteq> A" using c a cl by (auto simp: closed_region_def)
    with Suc kids have "\<forall>t \<in> set kids. set (ptrs t) \<subseteq> A" by blast
    then show ?thesis using a unfolding t by auto
  qed
  have f: "\<forall>t \<in> set ts. set (ptrs t) \<subseteq> A"
    if x: "set_option x \<subseteq> A" and r: "forest_of (Suc k) st x = Some ts" for x ts
  proof (cases x)
    case None
    then show ?thesis using r by simp
  next
    case (Some a)
    then have a: "a \<in> A" using x by simp
    from r Some obtain t cl rest where ta: "tree_of k st a = Some t" and cl: "cells st a = Some cl"
      and rest: "forest_of k st (NextSibling cl) = Some rest" and ts: "ts = t # rest"
      by (auto split: bind_splits)
    have "set_option (NextSibling cl) \<subseteq> A" using c a cl by (auto simp: closed_region_def)
    with Suc rest have "\<forall>t \<in> set rest. set (ptrs t) \<subseteq> A" by blast
    moreover have "set (ptrs t) \<subseteq> A" using Suc a ta by blast
    ultimately show ?thesis unfolding ts by simp
  qed
  show ?case using t f by blast
qed

lemma mutate_agree:
  assumes c: "closed_region st A B" and x: "x \<in> A"
    and m: "set_cData x d st = Some st' \<or> set_attr_Val x i v st = Some st'"
  shows "agree (- A) (- B) st st'"
  using m
proof
  assume "set_cData x d st = Some st'"
  then show ?thesis using x
    by (auto simp: set_cData_def write_cell_def agree_def split: bind_splits)
next
  assume a: "set_attr_Val x i v st = Some st'"
  then obtain cl b where "cells st x = Some cl" "cAttr cl = Some b"
    by (auto simp: set_attr_Val_def split: bind_splits)
  then have "b \<in> B" using c x by (auto simp: closed_region_def)
  then show ?thesis using a \<open>cells st x = Some cl\<close> \<open>cAttr cl = Some b\<close>
    by (auto simp: set_attr_Val_def agree_def split: bind_splits if_splits)
qed

lemma closed_below: "well_allocated st \<Longrightarrow> closed_region st {..<next_cell st} {..<next_array st}"
  by (auto simp: closed_region_def well_allocated_def cell_refs_def)

lemma closed_above: "fresh_closed m ma st \<Longrightarrow> closed_region st {m..} {ma..}"
  by (auto simp: closed_region_def fresh_closed_def cell_refs_def)

lemma closed_region_agree:
  "closed_region st A B \<Longrightarrow> agree A B st st' \<Longrightarrow> closed_region st' A B"
  by (auto simp: closed_region_def agree_def)

lemma agree_trans: "agree A B st st' \<Longrightarrow> agree A B st' st'' \<Longrightarrow> agree A B st st''"
  by (auto simp: agree_def)

lemma agree_mono: "agree A B st st' \<Longrightarrow> A' \<subseteq> A \<Longrightarrow> B' \<subseteq> B \<Longrightarrow> agree A' B' st st'"
  by (auto simp: agree_def)

lemma sound_agree: "sound m ma st0 st \<Longrightarrow> agree {..<m} {..<ma} st0 st"
  by (auto simp: sound_def same_below_def agree_def)

text \<open>
  C9.  In a well allocated store, take two projections of the tree at \<open>root\<close>, one after
  the other, with any selectors.  Neither projection changes the source tree, and the
  second does not change the first.  If then the data or an attribute value of a node \<open>x\<close>
  of one of the projections is assigned, the source tree reads as it did at the start, and
  the other projection reads as it did before the assignment.
\<close>

theorem C9_copies_share_no_state:
  assumes wa: "well_allocated st0"
    and d1: "store_DeepCopyFunc n root sel s st0 = Some (p1, st1, s1)"
    and d2: "store_DeepCopyFunc n' root sel' s' st1 = Some (p2, st2, s2)"
    and t1: "tree_of k st2 p1 = Some t1"
    and t2: "tree_of k st2 p2 = Some t2"
    and mu: "set_cData x d st2 = Some st3 \<or> set_attr_Val x i v st2 = Some st3"
  shows "tree_of j st2 root = tree_of j st0 root \<and> tree_of j st2 p1 = tree_of j st1 p1
       \<and> (x \<in> set (ptrs t1) \<union> set (ptrs t2) \<longrightarrow> tree_of j st3 root = tree_of j st0 root)
       \<and> (x \<in> set (ptrs t2) \<longrightarrow> tree_of j st3 p1 = tree_of j st1 p1)
       \<and> (x \<in> set (ptrs t1) \<longrightarrow> tree_of j st3 p2 = tree_of j st2 p2)"
proof -
  let ?m0 = "next_cell st0" and ?a0 = "next_array st0"
  let ?m1 = "next_cell st1" and ?a1 = "next_array st1"
  from store_DeepCopyFunc_sound [OF sound_start [OF wa] d1]
  have s01: "sound ?m0 ?a0 st0 st1" and f1: "fresh ?m0 st1 p1"
    and m01: "?m0 \<le> ?m1" and a01: "?a0 \<le> ?a1"
    by auto
  have wa1: "well_allocated st1" using s01 by (simp add: sound_def)
  from store_DeepCopyFunc_sound [OF sound_start [OF wa1] d2]
  have s12: "sound ?m1 ?a1 st1 st2" and f2: "fresh ?m1 st2 p2" by auto
  from store_DeepCopyFunc_sound [OF s01 d2]
  have s02: "sound ?m0 ?a0 st0 st2" by auto
  have root: "root < ?m0"
    using d1 wa by (auto simp: store_DeepCopyFunc_def store_Copy_def well_allocated_def
        split: bind_splits)
  have p1: "p1 < ?m1" "?m0 \<le> p1" using f1 by (auto simp: fresh_def)
  have p2: "?m1 \<le> p2" using f2 by (auto simp: fresh_def)
  note c0 = closed_below [OF wa]
  note c1 = closed_below [OF wa1]
  have g02: "agree {..<?m0} {..<?a0} st0 st2" using s02 by (rule sound_agree)
  have g12: "agree {..<?m1} {..<?a1} st1 st2" using s12 by (rule sound_agree)
  have r2: "tree_of j st2 root = tree_of j st0 root"
    using read_region [OF c0 g02, of j] root by simp
  have q2: "tree_of j st2 p1 = tree_of j st1 p1"
    using read_region [OF c1 g12, of j] p1 by simp
  have c2lo: "closed_region st2 {..<?m1} {..<?a1}" using closed_region_agree [OF c1 g12] .
  have c2hi: "closed_region st2 {?m1..} {?a1..}" using s12 by (simp add: sound_def closed_above)
  have c2mid: "closed_region st2 {?m0..} {?a0..}" using s02 by (simp add: sound_def closed_above)
  have x1: "x \<in> set (ptrs t1) \<Longrightarrow> x < ?m1 \<and> ?m0 \<le> x"
    using nodes_region [OF c2lo, of k] nodes_region [OF c2mid, of k] t1 p1 by fastforce
  have x2: "x \<in> set (ptrs t2) \<Longrightarrow> ?m1 \<le> x"
    using nodes_region [OF c2hi, of k] t2 p2 by fastforce
  have src: "tree_of j st3 root = tree_of j st0 root" if "x \<in> set (ptrs t1) \<union> set (ptrs t2)"
  proof -
    have "?m0 \<le> x" using that x1 x2 m01 by auto
    then have "agree (- {?m0..}) (- {?a0..}) st2 st3"
      using mutate_agree [OF c2mid _ mu] by simp
    then have "agree {..<?m0} {..<?a0} st2 st3" by (rule agree_mono) auto
    with g02 have "agree {..<?m0} {..<?a0} st0 st3" by (rule agree_trans)
    from read_region [OF c0 this, of j] root show ?thesis by simp
  qed
  have first: "tree_of j st3 p1 = tree_of j st1 p1" if "x \<in> set (ptrs t2)"
  proof -
    have "?m1 \<le> x" using that x2 by simp
    then have "agree (- {?m1..}) (- {?a1..}) st2 st3"
      using mutate_agree [OF c2hi _ mu] by simp
    then have "agree {..<?m1} {..<?a1} st2 st3" by (rule agree_mono) auto
    with g12 have "agree {..<?m1} {..<?a1} st1 st3" by (rule agree_trans)
    from read_region [OF c1 this, of j] p1 show ?thesis by simp
  qed
  have second: "tree_of j st3 p2 = tree_of j st2 p2" if "x \<in> set (ptrs t1)"
  proof -
    have "x < ?m1" using that x1 by simp
    then have "agree (- {..<?m1}) (- {..<?a1}) st2 st3"
      using mutate_agree [OF c2lo _ mu] by simp
    then have "agree {?m1..} {?a1..} st2 st3" by (rule agree_mono) auto
    from read_region [OF c2hi this, of j] p2 show ?thesis by simp
  qed
  show ?thesis using r2 q2 src first second by blast
qed

lemma the_triple:
  "\<not> Option.is_none r \<Longrightarrow> fst (the r) = a \<Longrightarrow> r = Some (a, fst (snd (the r)), ())"
  by (cases r) (auto simp: Option.is_none_def)

lemma ex_well_allocated: "well_allocated ex_store"
  by (auto simp: well_allocated_def ex_store_def empty_cell_def cell_refs_def split: if_splits)

lemma ex_first: "store_DeepCopyFunc 10 0 accept_all () ex_store = Some (4, ex_store1, ())"
  unfolding ex_store1_def by (rule the_triple; code_simp)

lemma ex_second: "store_DeepCopyFunc 10 0 accept_all () ex_store1 = Some (8, ex_store2, ())"
  unfolding ex_store2_def by (rule the_triple; code_simp)

lemma ex_mutation: "set_attr_Val 9 0 ''https://pkg.go.dev/fmt'' ex_store2 = Some ex_store3"
proof -
  have "\<not> Option.is_none (set_attr_Val 9 0 ''https://pkg.go.dev/fmt'' ex_store2)" by code_simp
  then show ?thesis unfolding ex_store3_def by (auto simp: Option.is_none_def)
qed

lemma ex_trees:
  "tree_of 10 ex_store2 4 = Some (Node 4 DocumentNode 0 [] [] []
        [Node 5 ElementNode 0 ''a'' [] [\<lparr>Namespace = [], Key = ''href'', Val = ''/fmt''\<rparr>]
          [Node 6 TextNode 0 ''fmt'' [] [] [], Node 7 ElementNode 0 ''b'' [] [] []]])"
  "tree_of 10 ex_store2 8 = Some (Node 8 DocumentNode 0 [] [] []
        [Node 9 ElementNode 0 ''a'' [] [\<lparr>Namespace = [], Key = ''href'', Val = ''/fmt''\<rparr>]
          [Node 10 TextNode 0 ''fmt'' [] [] [], Node 11 ElementNode 0 ''b'' [] [] []]])"
  "tree_of 10 ex_store3 8 = Some (Node 8 DocumentNode 0 [] [] []
        [Node 9 ElementNode 0 ''a'' [] [\<lparr>Namespace = [], Key = ''href'', Val = ''https://pkg.go.dev/fmt''\<rparr>]
          [Node 10 TextNode 0 ''fmt'' [] [] [], Node 11 ElementNode 0 ''b'' [] [] []]])"
  "tree_of 10 ex_store 0 = Some (Node 0 DocumentNode 0 [] [] []
        [Node 1 ElementNode 0 ''a'' [] [\<lparr>Namespace = [], Key = ''href'', Val = ''/fmt''\<rparr>]
          [Node 2 TextNode 0 ''fmt'' [] [] [], Node 3 ElementNode 0 ''b'' [] [] []]])"
  by code_simp+

theorem C9_copies_share_no_state_witness:
  "well_allocated ex_store
   \<and> store_DeepCopyFunc 10 0 accept_all () ex_store = Some (4, ex_store1, ())
   \<and> store_DeepCopyFunc 10 0 accept_all () ex_store1 = Some (8, ex_store2, ())
   \<and> set_attr_Val 9 0 ''https://pkg.go.dev/fmt'' ex_store2 = Some ex_store3
   \<and> tree_of 10 ex_store3 8 = Some (Node 8 DocumentNode 0 [] [] []
        [Node 9 ElementNode 0 ''a'' [] [\<lparr>Namespace = [], Key = ''href'', Val = ''https://pkg.go.dev/fmt''\<rparr>]
          [Node 10 TextNode 0 ''fmt'' [] [] [], Node 11 ElementNode 0 ''b'' [] [] []]])
   \<and> tree_of 10 ex_store3 0 = Some (Node 0 DocumentNode 0 [] [] []
        [Node 1 ElementNode 0 ''a'' [] [\<lparr>Namespace = [], Key = ''href'', Val = ''/fmt''\<rparr>]
          [Node 2 TextNode 0 ''fmt'' [] [] [], Node 3 ElementNode 0 ''b'' [] [] []]])
   \<and> tree_of 10 ex_store3 4 = tree_of 10 ex_store1 4"
proof -
  have x: "9 \<in> set (ptrs (Node 4 DocumentNode 0 [] [] []
        [Node 5 ElementNode 0 ''a'' [] [\<lparr>Namespace = [], Key = ''href'', Val = ''/fmt''\<rparr>]
          [Node 6 TextNode 0 ''fmt'' [] [] [], Node 7 ElementNode 0 ''b'' [] [] []]]))
      \<union> set (ptrs (Node 8 DocumentNode 0 [] [] []
        [Node 9 ElementNode 0 ''a'' [] [\<lparr>Namespace = [], Key = ''href'', Val = ''/fmt''\<rparr>]
          [Node 10 TextNode 0 ''fmt'' [] [] [], Node 11 ElementNode 0 ''b'' [] [] []]]))"
    by simp
  from C9_copies_share_no_state [OF ex_well_allocated ex_first ex_second ex_trees(1) ex_trees(2)
      disjI2 [OF ex_mutation], of 10] x
  show ?thesis
    using ex_well_allocated ex_first ex_second ex_mutation ex_trees by simp
qed

end
